theory Spec2Isabelle
  imports Main
begin

section \<open>Device power management core: data model\<close>

text \<open>
  A shallow embedding of \<^verbatim>\<open>drivers/base/power/main.c\<close>. Device objects live in a
  store indexed by address (a natural number); \<^verbatim>\<open>dpm_list\<close> is the list of the
  addresses linked through \<^verbatim>\<open>power.entry\<close>. The functions of the file thread one
  state record. The embedding follows the controlling thread: a call of
  \<^verbatim>\<open>wait_for_completion\<close> on a completion that is not done, and
  \<^verbatim>\<open>async_synchronize_full\<close> with work still queued, end the run with the outcome
  \<open>Blocked\<close>, because what the worker threads do from there is not a function of the
  state. Driver callbacks are functions on an abstract driver world \<open>'w\<close> that return
  their result code; they do not touch the lists or the status fields.
\<close>

text \<open>
  \<^verbatim>\<open>enum dpm_state\<close> of \<^verbatim>\<open>include/linux/pm.h\<close>. The header is not part of the
  sources at hand; the order of the constants is the one the comparisons of main.c rely
  on (\<^verbatim>\<open>status >= DPM_OFF\<close>, \<^verbatim>\<open>status > DPM_ON\<close>).
\<close>

datatype dpm_state =
  DPM_INVALID | DPM_ON | DPM_PREPARING | DPM_RESUMING | DPM_SUSPENDING | DPM_OFF | DPM_OFF_IRQ

fun dpm_rank :: "dpm_state \<Rightarrow> nat" where
  "dpm_rank DPM_INVALID = 0"
| "dpm_rank DPM_ON = 1"
| "dpm_rank DPM_PREPARING = 2"
| "dpm_rank DPM_RESUMING = 3"
| "dpm_rank DPM_SUSPENDING = 4"
| "dpm_rank DPM_OFF = 5"
| "dpm_rank DPM_OFF_IRQ = 6"

text \<open>The event of a \<^verbatim>\<open>pm_message_t\<close>.\<close>

datatype pm_message =
  PM_EVENT_ON | PM_EVENT_FREEZE | PM_EVENT_SUSPEND | PM_EVENT_HIBERNATE | PM_EVENT_QUIESCE
  | PM_EVENT_RESUME | PM_EVENT_THAW | PM_EVENT_RESTORE | PM_EVENT_RECOVER

text \<open>Error numbers of \<^verbatim>\<open>errno.h\<close>.\<close>

definition EAGAIN :: int where "EAGAIN = 11"
definition EBUSY :: int where "EBUSY = 16"

type_synonym 'w callback = "nat \<Rightarrow> 'w \<Rightarrow> int \<times> 'w"
type_synonym 'w void_callback = "nat \<Rightarrow> 'w \<Rightarrow> 'w"
type_synonym 'w legacy_callback = "nat \<Rightarrow> pm_message \<Rightarrow> 'w \<Rightarrow> int \<times> 'w"

text \<open>The members of \<^verbatim>\<open>struct dev_pm_ops\<close> that main.c reads; \<open>None\<close> is a NULL pointer.\<close>

record 'w dev_pm_ops =
  prepare :: "'w callback option"
  complete :: "'w void_callback option"
  suspend :: "'w callback option"
  resume :: "'w callback option"
  suspend_noirq :: "'w callback option"
  resume_noirq :: "'w callback option"

record 'w bus_type =
  bus_pm :: "'w dev_pm_ops option"
  bus_suspend :: "'w legacy_callback option"
  bus_resume :: "'w callback option"

record 'w device_type =
  type_pm :: "'w dev_pm_ops option"

record 'w dev_class =
  class_pm :: "'w dev_pm_ops option"
  class_suspend :: "'w legacy_callback option"
  class_resume :: "'w callback option"

text \<open>
  \<^verbatim>\<open>struct device\<close>: the parent pointer, the children that
  \<^verbatim>\<open>device_for_each_child\<close> visits, the three tiers of callbacks, the fields of
  \<^verbatim>\<open>dev->power\<close>, and what the runtime PM helpers called by \<^verbatim>\<open>dpm_prepare\<close>
  answer for this device (\<^verbatim>\<open>pm_runtime_barrier\<close>, \<^verbatim>\<open>device_may_wakeup\<close>).
\<close>

record 'w device =
  dev_parent :: "nat option"
  dev_children :: "nat list"
  dev_bus :: "'w bus_type option"
  dev_type :: "'w device_type option"
  dev_class :: "'w dev_class option"
  power_status :: dpm_state
  power_completion :: bool
  power_async_suspend :: bool
  power_usage_count :: int
  runtime_barrier :: int
  may_wakeup :: bool

datatype tier = Bus_tier | Type_tier | Class_tier

datatype slot =
  Prepare | Complete | Suspend | Resume | Suspend_noirq | Resume_noirq
  | Legacy_suspend | Legacy_resume

datatype async_fn = Async_suspend | Async_resume

text \<open>
  \<^verbatim>\<open>struct dpm_drv_wd_data\<close>, and \<^verbatim>\<open>struct timer_list\<close> of \<^verbatim>\<open>linux/timer.h\<close> as
  far as main.c fills it in. \<^verbatim>\<open>expires\<close> is an \<^verbatim>\<open>unsigned long\<close>; \<^verbatim>\<open>function\<close>
  points to the handler, and \<^verbatim>\<open>dpm_drv_timeout\<close> is the only handler of the file;
  \<^verbatim>\<open>data\<close> is the address of the watchdog data, here the data themselves. Tasks are
  numbered like devices.
\<close>

record dpm_drv_wd_data =
  wd_dev :: nat
  wd_tsk :: nat

datatype timer_fn = Dpm_drv_timeout

record timer_list =
  timer_expires :: nat
  timer_function :: timer_fn
  timer_data :: dpm_drv_wd_data

text \<open>What the run leaves behind, in order.\<close>

datatype event =
  Mutex_lock | Mutex_unlock
  | Device_lock nat | Device_unlock nat
  | Call nat tier slot
  | Status nat dpm_state
  | Init_completion nat | Complete_all nat | Wait nat
  | Add_timer timer_list | Del_timer timer_list
  | Async_schedule async_fn nat
  | Async_synchronize_full
  | Pm_dev_err nat int
  | Suspend_device_irqs | Resume_device_irqs
  | Printk_timeout nat | Show_stack nat | BUG

datatype 'a outcome = Returns 'a | Blocked

text \<open>
  The globals of main.c (\<^verbatim>\<open>dpm_list\<close>, \<^verbatim>\<open>dpm_list_mtx\<close>,
  \<^verbatim>\<open>transition_started\<close>, \<^verbatim>\<open>pm_transition\<close>, \<^verbatim>\<open>async_error\<close>), the
  globals it reads (\<^verbatim>\<open>pm_async_enabled\<close>, \<^verbatim>\<open>pm_trace_is_enabled()\<close>,
  \<^verbatim>\<open>jiffies\<close>, \<^verbatim>\<open>HZ\<close>, the task \<^verbatim>\<open>get_current()\<close> that runs the code, and
  the number of bits of an \<^verbatim>\<open>unsigned long\<close>, which the target fixes), the work
  handed to \<^verbatim>\<open>async_schedule\<close>, the device store and the driver world. Each event of the trace is logged with the value that
  \<^verbatim>\<open>dpm_list_mtx\<close> has for the controlling thread at that moment.
\<close>

record 'w pm_state =
  devs :: "nat \<Rightarrow> 'w device"
  dpm_list :: "nat list"
  dpm_list_mtx :: bool
  transition_started :: bool
  pm_transition :: pm_message
  async_error :: int
  pm_async_enabled :: bool
  pm_trace_enabled :: bool
  jiffies :: nat
  HZ :: nat
  BITS_PER_LONG :: nat
  current_task :: nat
  async_pending :: "(async_fn \<times> nat) list"
  world :: 'w
  trace :: "(bool \<times> event) list"

section \<open>Primitives\<close>

definition emit :: "event \<Rightarrow> 'w pm_state \<Rightarrow> 'w pm_state" where
  "emit e s = s\<lparr>trace := trace s @ [(dpm_list_mtx s, e)]\<rparr>"

definition mutex_lock :: "'w pm_state \<Rightarrow> 'w pm_state" where
  "mutex_lock s = emit Mutex_lock (s\<lparr>dpm_list_mtx := True\<rparr>)"

definition mutex_unlock :: "'w pm_state \<Rightarrow> 'w pm_state" where
  "mutex_unlock s = emit Mutex_unlock (s\<lparr>dpm_list_mtx := False\<rparr>)"

definition upd_dev :: "nat \<Rightarrow> ('w device \<Rightarrow> 'w device) \<Rightarrow> 'w pm_state \<Rightarrow> 'w pm_state" where
  "upd_dev d f s = s\<lparr>devs := (devs s)(d := f (devs s d))\<rparr>"

definition set_status :: "nat \<Rightarrow> dpm_state \<Rightarrow> 'w pm_state \<Rightarrow> 'w pm_state" where
  "set_status d st s = emit (Status d st) (upd_dev d (\<lambda>x. x\<lparr>power_status := st\<rparr>) s)"

definition status_of :: "'w pm_state \<Rightarrow> nat \<Rightarrow> dpm_state" where
  "status_of s d = power_status (devs s d)"

definition INIT_COMPLETION :: "nat \<Rightarrow> 'w pm_state \<Rightarrow> 'w pm_state" where
  "INIT_COMPLETION d s =
     emit (Init_completion d) (upd_dev d (\<lambda>x. x\<lparr>power_completion := False\<rparr>) s)"

definition complete_all :: "nat \<Rightarrow> 'w pm_state \<Rightarrow> 'w pm_state" where
  "complete_all d s =
     emit (Complete_all d) (upd_dev d (\<lambda>x. x\<lparr>power_completion := True\<rparr>) s)"

definition wait_for_completion :: "nat \<Rightarrow> 'w pm_state \<Rightarrow> unit outcome \<times> 'w pm_state" where
  "wait_for_completion d s =
     (if power_completion (devs s d) then (Returns (), emit (Wait d) s)
      else (Blocked, emit (Wait d) s))"

definition pm_runtime_get_noresume :: "nat \<Rightarrow> 'w pm_state \<Rightarrow> 'w pm_state" where
  "pm_runtime_get_noresume d s =
     upd_dev d (\<lambda>x. x\<lparr>power_usage_count := power_usage_count x + 1\<rparr>) s"

definition pm_runtime_put_sync :: "nat \<Rightarrow> 'w pm_state \<Rightarrow> 'w pm_state" where
  "pm_runtime_put_sync d s =
     upd_dev d (\<lambda>x. x\<lparr>power_usage_count := power_usage_count x - 1\<rparr>) s"

definition async_schedule :: "async_fn \<Rightarrow> nat \<Rightarrow> 'w pm_state \<Rightarrow> 'w pm_state" where
  "async_schedule fn d s =
     emit (Async_schedule fn d) (s\<lparr>async_pending := async_pending s @ [(fn, d)]\<rparr>)"

definition async_synchronize_full :: "'w pm_state \<Rightarrow> unit outcome \<times> 'w pm_state" where
  "async_synchronize_full s =
     (if async_pending s = [] then (Returns (), emit Async_synchronize_full s)
      else (Blocked, emit Async_synchronize_full s))"

text \<open>A driver callback is entered: the event is logged, the world is handed over.\<close>

definition invoke :: "nat \<Rightarrow> tier \<Rightarrow> slot \<Rightarrow> ('w \<Rightarrow> int \<times> 'w) \<Rightarrow> 'w pm_state
    \<Rightarrow> int \<times> 'w pm_state" where
  "invoke d t sl f s =
     (let s1 = emit (Call d t sl) s; (r, w) = f (world s1) in (r, s1\<lparr>world := w\<rparr>))"

definition invoke_void :: "nat \<Rightarrow> tier \<Rightarrow> slot \<Rightarrow> ('w \<Rightarrow> 'w) \<Rightarrow> 'w pm_state
    \<Rightarrow> 'w pm_state" where
  "invoke_void d t sl f s = (let s1 = emit (Call d t sl) s in s1\<lparr>world := f (world s1)\<rparr>)"

section \<open>Registry\<close>

definition device_pm_init :: "nat \<Rightarrow> 'w pm_state \<Rightarrow> 'w pm_state" where
  "device_pm_init d s =
     complete_all d
       (INIT_COMPLETION d (upd_dev d (\<lambda>x. x\<lparr>power_status := DPM_ON\<rparr>) s))"

definition device_pm_add :: "nat \<Rightarrow> 'w pm_state \<Rightarrow> 'w pm_state" where
  "device_pm_add d s =
     (let s1 = mutex_lock s;
          s2 = s1\<lparr>dpm_list := dpm_list s1 @ [d]\<rparr>
      in mutex_unlock s2)"

definition device_pm_remove :: "nat \<Rightarrow> 'w pm_state \<Rightarrow> 'w pm_state" where
  "device_pm_remove d s =
     (let s1 = complete_all d s;
          s2 = mutex_lock s1;
          s3 = s2\<lparr>dpm_list := removeAll d (dpm_list s2)\<rparr>
      in mutex_unlock s3)"

section \<open>Waiting for other devices\<close>

definition dpm_wait :: "nat option \<Rightarrow> bool \<Rightarrow> 'w pm_state \<Rightarrow> unit outcome \<times> 'w pm_state" where
  "dpm_wait dev async s =
     (case dev of
        None \<Rightarrow> (Returns (), s)
      | Some d \<Rightarrow>
          if async \<or> (pm_async_enabled s \<and> power_async_suspend (devs s d))
          then wait_for_completion d s
          else (Returns (), s))"

text \<open>\<^verbatim>\<open>device_for_each_child(dev, &async, dpm_wait_fn)\<close>: one child after the other.\<close>

fun dpm_wait_fn_each :: "nat list \<Rightarrow> bool \<Rightarrow> 'w pm_state \<Rightarrow> unit outcome \<times> 'w pm_state" where
  "dpm_wait_fn_each [] async s = (Returns (), s)"
| "dpm_wait_fn_each (c # cs) async s =
     (case dpm_wait (Some c) async s of
        (Returns u, s1) \<Rightarrow> dpm_wait_fn_each cs async s1
      | (Blocked, s1) \<Rightarrow> (Blocked, s1))"

definition dpm_wait_for_children :: "nat \<Rightarrow> bool \<Rightarrow> 'w pm_state \<Rightarrow> unit outcome \<times> 'w pm_state" where
  "dpm_wait_for_children d async s = dpm_wait_fn_each (dev_children (devs s d)) async s"

definition device_pm_wait_for_dev :: "nat \<Rightarrow> nat option \<Rightarrow> 'w pm_state
    \<Rightarrow> unit outcome \<times> 'w pm_state" where
  "device_pm_wait_for_dev subordinate dev s =
     dpm_wait dev (power_async_suspend (devs s subordinate)) s"

section \<open>Running callbacks\<close>

definition dpm_run_callback :: "nat \<Rightarrow> tier \<Rightarrow> slot \<Rightarrow> 'w callback option \<Rightarrow> 'w pm_state
    \<Rightarrow> int \<times> 'w pm_state" where
  "dpm_run_callback d t sl cb s =
     (case cb of None \<Rightarrow> (0, s) | Some f \<Rightarrow> invoke d t sl (f d) s)"

definition legacy_suspend :: "nat \<Rightarrow> tier \<Rightarrow> pm_message \<Rightarrow> 'w legacy_callback \<Rightarrow> 'w pm_state
    \<Rightarrow> int \<times> 'w pm_state" where
  "legacy_suspend d t state cb s = invoke d t Legacy_suspend (cb d state) s"

definition pm_dev_err :: "nat \<Rightarrow> int \<Rightarrow> 'w pm_state \<Rightarrow> 'w pm_state" where
  "pm_dev_err d error s = emit (Pm_dev_err d error) s"

definition is_async :: "'w pm_state \<Rightarrow> nat \<Rightarrow> bool" where
  "is_async s d \<longleftrightarrow>
     power_async_suspend (devs s d) \<and> pm_async_enabled s \<and> \<not> pm_trace_enabled s"

section \<open>Early resume\<close>

definition dev_bus_pm :: "'w device \<Rightarrow> 'w dev_pm_ops option" where
  "dev_bus_pm dv = (case dev_bus dv of None \<Rightarrow> None | Some b \<Rightarrow> bus_pm b)"

definition dev_type_pm :: "'w device \<Rightarrow> 'w dev_pm_ops option" where
  "dev_type_pm dv = (case dev_type dv of None \<Rightarrow> None | Some t \<Rightarrow> type_pm t)"

definition dev_class_pm :: "'w device \<Rightarrow> 'w dev_pm_ops option" where
  "dev_class_pm dv = (case dev_class dv of None \<Rightarrow> None | Some c \<Rightarrow> class_pm c)"

definition device_resume_noirq :: "nat \<Rightarrow> pm_message \<Rightarrow> 'w pm_state \<Rightarrow> int \<times> 'w pm_state" where
  "device_resume_noirq d state s =
     (let (error, s1) =
            (case dev_bus_pm (devs s d) of
               Some pm \<Rightarrow> dpm_run_callback d Bus_tier Resume_noirq (resume_noirq pm) s
             | None \<Rightarrow> (0, s))
      in if error \<noteq> 0 then (error, s1)
         else
           let (error, s2) =
                 (case dev_type_pm (devs s1 d) of
                    Some pm \<Rightarrow> dpm_run_callback d Type_tier Resume_noirq (resume_noirq pm) s1
                  | None \<Rightarrow> (0, s1))
           in if error \<noteq> 0 then (error, s2)
              else
                (case dev_class_pm (devs s2 d) of
                   Some pm \<Rightarrow> dpm_run_callback d Class_tier Resume_noirq (resume_noirq pm) s2
                 | None \<Rightarrow> (0, s2)))"

text \<open>The body of \<^verbatim>\<open>list_for_each_entry(dev, &dpm_list, power.entry)\<close> in \<^verbatim>\<open>dpm_resume_noirq\<close>.\<close>

fun dpm_resume_noirq_each :: "pm_message \<Rightarrow> nat list \<Rightarrow> 'w pm_state \<Rightarrow> 'w pm_state" where
  "dpm_resume_noirq_each state [] s = s"
| "dpm_resume_noirq_each state (dev # ds) s =
     (if dpm_rank (status_of s dev) > dpm_rank DPM_OFF then
        let s1 = set_status dev DPM_OFF s;
            (error, s2) = device_resume_noirq dev state s1;
            s3 = (if error \<noteq> 0 then pm_dev_err dev error s2 else s2)
        in dpm_resume_noirq_each state ds s3
      else dpm_resume_noirq_each state ds s)"

definition dpm_resume_noirq :: "pm_message \<Rightarrow> 'w pm_state \<Rightarrow> 'w pm_state" where
  "dpm_resume_noirq state s =
     (let s1 = mutex_lock s;
          s2 = s1\<lparr>transition_started := False\<rparr>;
          s3 = dpm_resume_noirq_each state (dpm_list s2) s2;
          s4 = mutex_unlock s3
      in emit Resume_device_irqs s4)"

section \<open>Resume\<close>

text \<open>The three blocks of \<^verbatim>\<open>device_resume\<close>: bus, type, class.\<close>

definition device_resume_bus :: "nat \<Rightarrow> 'w pm_state \<Rightarrow> int \<times> 'w pm_state" where
  "device_resume_bus d s =
     (case dev_bus (devs s d) of
        None \<Rightarrow> (0, s)
      | Some b \<Rightarrow>
          (case bus_pm b of
             Some pm \<Rightarrow> dpm_run_callback d Bus_tier Resume (resume pm) s
           | None \<Rightarrow>
               (case bus_resume b of
                  Some f \<Rightarrow> dpm_run_callback d Bus_tier Legacy_resume (Some f) s
                | None \<Rightarrow> (0, s))))"

definition device_resume_type :: "nat \<Rightarrow> 'w pm_state \<Rightarrow> int \<times> 'w pm_state" where
  "device_resume_type d s =
     (case dev_type (devs s d) of
        None \<Rightarrow> (0, s)
      | Some t \<Rightarrow>
          (case type_pm t of
             Some pm \<Rightarrow> dpm_run_callback d Type_tier Resume (resume pm) s
           | None \<Rightarrow> (0, s)))"

definition device_resume_class :: "nat \<Rightarrow> 'w pm_state \<Rightarrow> int \<times> 'w pm_state" where
  "device_resume_class d s =
     (case dev_class (devs s d) of
        None \<Rightarrow> (0, s)
      | Some c \<Rightarrow>
          (case class_pm c of
             Some pm \<Rightarrow> dpm_run_callback d Class_tier Resume (resume pm) s
           | None \<Rightarrow>
               (case class_resume c of
                  Some f \<Rightarrow> dpm_run_callback d Class_tier Legacy_resume (Some f) s
                | None \<Rightarrow> (0, s))))"

definition device_resume_wait :: "nat \<Rightarrow> bool \<Rightarrow> 'w pm_state \<Rightarrow> unit outcome \<times> 'w pm_state" where
  "device_resume_wait d async s =
     (case dev_parent (devs s d) of
        None \<Rightarrow> (Returns (), s)
      | Some p \<Rightarrow>
          if dpm_rank (status_of s p) \<ge> dpm_rank DPM_OFF \<or> status_of s p = DPM_RESUMING
          then dpm_wait (Some p) async s
          else (Returns (), s))"

definition device_resume :: "nat \<Rightarrow> pm_message \<Rightarrow> bool \<Rightarrow> 'w pm_state
    \<Rightarrow> int outcome \<times> 'w pm_state" where
  "device_resume d state async s =
     (case device_resume_wait d async s of
        (Blocked, s1) \<Rightarrow> (Blocked, s1)
      | (Returns u, s1) \<Rightarrow>
          let s2 = emit (Device_lock d) s1;
              s3 = set_status d DPM_RESUMING s2;
              (error, s4) =
                (let (error, s') = device_resume_bus d s3 in
                 if error \<noteq> 0 then (error, s')
                 else
                   let (error, s'') = device_resume_type d s' in
                   if error \<noteq> 0 then (error, s'')
                   else device_resume_class d s'');
              s5 = emit (Device_unlock d) s4;
              s6 = complete_all d s5
          in (Returns error, s6))"

definition async_resume :: "nat \<Rightarrow> 'w pm_state \<Rightarrow> unit outcome \<times> 'w pm_state" where
  "async_resume d s =
     (case device_resume d (pm_transition s) True s of
        (Blocked, s1) \<Rightarrow> (Blocked, s1)
      | (Returns error, s1) \<Rightarrow>
          (Returns (), if error \<noteq> 0 then pm_dev_err d error s1 else s1))"

text \<open>
  The watchdog handler: it names the device, prints the stack of the task recorded in
  the watchdog data and ends in \<^verbatim>\<open>BUG()\<close>. \<^verbatim>\<open>BUG()\<close> does not return: what is left
  is a halted machine, a value of a type of its own on which no function of the file
  can go on.
\<close>

datatype 'w halted = Halted "'w pm_state"

definition dpm_drv_timeout :: "dpm_drv_wd_data \<Rightarrow> 'w pm_state \<Rightarrow> 'w halted" where
  "dpm_drv_timeout wd_data s =
     (let dev = wd_dev wd_data;
          tsk = wd_tsk wd_data;
          s1 = emit (Printk_timeout dev) s;
          s2 = emit (Show_stack tsk) s1
      in Halted (emit BUG s2))"

text \<open>
  Modelled from the spec: the timer core (\<^verbatim>\<open>kernel/timer.c\<close>) is not among the
  sources. When the deadline of an armed timer has passed and the timer has not been
  deleted, the kernel calls \<^verbatim>\<open>timer->function(timer->data)\<close>; the specification has the
  watchdog fire when the guarded callback has not returned within the deadline.
\<close>

definition timer_expiry :: "timer_list \<Rightarrow> 'w pm_state \<Rightarrow> 'w halted" where
  "timer_expiry timer s =
     (case timer_function timer of Dpm_drv_timeout \<Rightarrow> dpm_drv_timeout (timer_data timer) s)"

text \<open>The first loop of \<^verbatim>\<open>dpm_resume\<close>.\<close>

fun dpm_resume_each :: "nat list \<Rightarrow> 'w pm_state \<Rightarrow> 'w pm_state" where
  "dpm_resume_each [] s = s"
| "dpm_resume_each (dev # ds) s =
     (if dpm_rank (status_of s dev) < dpm_rank DPM_OFF then dpm_resume_each ds s
      else
        let s1 = INIT_COMPLETION dev s;
            s2 = (if is_async s1 dev then async_schedule Async_resume dev s1 else s1)
        in dpm_resume_each ds s2)"

section \<open>Complete\<close>

definition device_complete :: "nat \<Rightarrow> pm_message \<Rightarrow> 'w pm_state \<Rightarrow> 'w pm_state" where
  "device_complete d state s =
     (let s1 = emit (Device_lock d) s;
          s2 = (case dev_class_pm (devs s1 d) of
                  Some pm \<Rightarrow>
                    (case complete pm of
                       Some f \<Rightarrow> invoke_void d Class_tier Complete (f d) s1
                     | None \<Rightarrow> s1)
                | None \<Rightarrow> s1);
          s3 = (case dev_type_pm (devs s2 d) of
                  Some pm \<Rightarrow>
                    (case complete pm of
                       Some f \<Rightarrow> invoke_void d Type_tier Complete (f d) s2
                     | None \<Rightarrow> s2)
                | None \<Rightarrow> s2);
          s4 = (case dev_bus_pm (devs s3 d) of
                  Some pm \<Rightarrow>
                    (case complete pm of
                       Some f \<Rightarrow> invoke_void d Bus_tier Complete (f d) s3
                     | None \<Rightarrow> s3)
                | None \<Rightarrow> s3)
      in emit (Device_unlock d) s4)"

section \<open>Late suspend\<close>

fun resume_event :: "pm_message \<Rightarrow> pm_message" where
  "resume_event PM_EVENT_SUSPEND = PM_EVENT_RESUME"
| "resume_event PM_EVENT_FREEZE = PM_EVENT_RECOVER"
| "resume_event PM_EVENT_QUIESCE = PM_EVENT_RECOVER"
| "resume_event PM_EVENT_HIBERNATE = PM_EVENT_RESTORE"
| "resume_event _ = PM_EVENT_ON"

definition device_suspend_noirq :: "nat \<Rightarrow> pm_message \<Rightarrow> 'w pm_state \<Rightarrow> int \<times> 'w pm_state" where
  "device_suspend_noirq d state s =
     (let (error, s1) =
            (case dev_class_pm (devs s d) of
               Some pm \<Rightarrow> dpm_run_callback d Class_tier Suspend_noirq (suspend_noirq pm) s
             | None \<Rightarrow> (0, s))
      in if error \<noteq> 0 then (error, s1)
         else
           let (error, s2) =
                 (case dev_type_pm (devs s1 d) of
                    Some pm \<Rightarrow> dpm_run_callback d Type_tier Suspend_noirq (suspend_noirq pm) s1
                  | None \<Rightarrow> (0, s1))
           in if error \<noteq> 0 then (error, s2)
              else
                (case dev_bus_pm (devs s2 d) of
                   Some pm \<Rightarrow> dpm_run_callback d Bus_tier Suspend_noirq (suspend_noirq pm) s2
                 | None \<Rightarrow> (0, s2)))"

text \<open>\<^verbatim>\<open>list_for_each_entry_reverse\<close> in \<^verbatim>\<open>dpm_suspend_noirq\<close>, over the reversed list.\<close>

fun dpm_suspend_noirq_each :: "pm_message \<Rightarrow> nat list \<Rightarrow> 'w pm_state \<Rightarrow> int \<times> 'w pm_state" where
  "dpm_suspend_noirq_each state [] s = (0, s)"
| "dpm_suspend_noirq_each state (dev # ds) s =
     (let (error, s1) = device_suspend_noirq dev state s
      in if error \<noteq> 0 then (error, pm_dev_err dev error s1)
         else dpm_suspend_noirq_each state ds (set_status dev DPM_OFF_IRQ s1))"

definition dpm_suspend_noirq :: "pm_message \<Rightarrow> 'w pm_state \<Rightarrow> int \<times> 'w pm_state" where
  "dpm_suspend_noirq state s =
     (let s1 = emit Suspend_device_irqs s;
          s2 = mutex_lock s1;
          (error, s3) = dpm_suspend_noirq_each state (rev (dpm_list s2)) s2;
          s4 = mutex_unlock s3
      in if error \<noteq> 0 then (error, dpm_resume_noirq (resume_event state) s4)
         else (error, s4))"

section \<open>Suspend\<close>

text \<open>The three blocks of \<^verbatim>\<open>__device_suspend\<close>: class, type, bus.\<close>

definition device_suspend_class :: "nat \<Rightarrow> pm_message \<Rightarrow> 'w pm_state \<Rightarrow> int \<times> 'w pm_state" where
  "device_suspend_class d state s =
     (case dev_class (devs s d) of
        None \<Rightarrow> (0, s)
      | Some c \<Rightarrow>
          (case class_pm c of
             Some pm \<Rightarrow> dpm_run_callback d Class_tier Suspend (suspend pm) s
           | None \<Rightarrow>
               (case class_suspend c of
                  Some f \<Rightarrow> legacy_suspend d Class_tier state f s
                | None \<Rightarrow> (0, s))))"

definition device_suspend_type :: "nat \<Rightarrow> 'w pm_state \<Rightarrow> int \<times> 'w pm_state" where
  "device_suspend_type d s =
     (case dev_type (devs s d) of
        None \<Rightarrow> (0, s)
      | Some t \<Rightarrow>
          (case type_pm t of
             Some pm \<Rightarrow> dpm_run_callback d Type_tier Suspend (suspend pm) s
           | None \<Rightarrow> (0, s)))"

definition device_suspend_bus :: "nat \<Rightarrow> pm_message \<Rightarrow> 'w pm_state \<Rightarrow> int \<times> 'w pm_state" where
  "device_suspend_bus d state s =
     (case dev_bus (devs s d) of
        None \<Rightarrow> (0, s)
      | Some b \<Rightarrow>
          (case bus_pm b of
             Some pm \<Rightarrow> dpm_run_callback d Bus_tier Suspend (suspend pm) s
           | None \<Rightarrow>
               (case bus_suspend b of
                  Some f \<Rightarrow> legacy_suspend d Bus_tier state f s
                | None \<Rightarrow> (0, s))))"

text \<open>
  The part of \<^verbatim>\<open>__device_suspend\<close> between \<^verbatim>\<open>device_lock\<close> and the label
  \<^verbatim>\<open>End\<close>.
\<close>

definition device_suspend_callbacks :: "nat \<Rightarrow> pm_message \<Rightarrow> 'w pm_state \<Rightarrow> int \<times> 'w pm_state" where
  "device_suspend_callbacks d state s =
     (if async_error s \<noteq> 0 then (0, s)
      else
        let (error, s1) = device_suspend_class d state s in
        if error \<noteq> 0 then (error, s1)
        else
          let (error, s2) = device_suspend_type d s1 in
          if error \<noteq> 0 then (error, s2)
          else
            let (error, s3) = device_suspend_bus d state s2 in
            if error = 0 then (error, set_status d DPM_OFF s3) else (error, s3))"

text \<open>
  The watchdog of \<^verbatim>\<open>__device_suspend\<close> as lines 733 to 738 set it up: the deadline
  \<^verbatim>\<open>jiffies + HZ * 12\<close> is an \<^verbatim>\<open>unsigned long\<close> and wraps around, the handler is
  \<^verbatim>\<open>dpm_drv_timeout\<close>, and the data are the device and the task that runs
  \<^verbatim>\<open>__device_suspend\<close>.
\<close>

definition dpm_drv_wd_timer :: "nat \<Rightarrow> 'w pm_state \<Rightarrow> timer_list" where
  "dpm_drv_wd_timer d s =
     (let wd_data = \<lparr>wd_dev = d, wd_tsk = current_task s\<rparr>
      in \<lparr>timer_expires = (jiffies s + HZ s * 12) mod 2 ^ BITS_PER_LONG s,
          timer_function = Dpm_drv_timeout,
          timer_data = wd_data\<rparr>)"

text \<open>\<^verbatim>\<open>__device_suspend\<close>.\<close>

definition uu_device_suspend :: "nat \<Rightarrow> pm_message \<Rightarrow> bool \<Rightarrow> 'w pm_state
    \<Rightarrow> int outcome \<times> 'w pm_state" where
  "uu_device_suspend d state async s =
     (case dpm_wait_for_children d async s of
        (Blocked, s1) \<Rightarrow> (Blocked, s1)
      | (Returns u, s1) \<Rightarrow>
          let timer = dpm_drv_wd_timer d s1;
              s2 = emit (Add_timer timer) s1;
              s3 = emit (Device_lock d) s2;
              (error, s4) = device_suspend_callbacks d state s3;
              s5 = emit (Device_unlock d) s4;
              s6 = emit (Del_timer timer) s5;
              s7 = complete_all d s6
          in (Returns error, s7))"

definition async_suspend :: "nat \<Rightarrow> 'w pm_state \<Rightarrow> unit outcome \<times> 'w pm_state" where
  "async_suspend d s =
     (case uu_device_suspend d (pm_transition s) True s of
        (Blocked, s1) \<Rightarrow> (Blocked, s1)
      | (Returns error, s1) \<Rightarrow>
          (Returns (),
           if error \<noteq> 0 then (pm_dev_err d error s1)\<lparr>async_error := error\<rparr> else s1))"

definition device_suspend :: "nat \<Rightarrow> 'w pm_state \<Rightarrow> int outcome \<times> 'w pm_state" where
  "device_suspend d s =
     (let s1 = INIT_COMPLETION d s
      in if pm_async_enabled s1 \<and> power_async_suspend (devs s1 d)
         then (Returns 0, async_schedule Async_suspend d s1)
         else uu_device_suspend d (pm_transition s1) False s1)"

section \<open>Prepare\<close>

definition device_prepare :: "nat \<Rightarrow> pm_message \<Rightarrow> 'w pm_state \<Rightarrow> int \<times> 'w pm_state" where
  "device_prepare d state s =
     (let s0 = emit (Device_lock d) s;
          (error, s3) =
            (let (error, s1) =
                   (case dev_bus_pm (devs s0 d) of
                      Some pm \<Rightarrow>
                        (case prepare pm of
                           Some f \<Rightarrow> invoke d Bus_tier Prepare (f d) s0
                         | None \<Rightarrow> (0, s0))
                    | None \<Rightarrow> (0, s0))
             in if error \<noteq> 0 then (error, s1)
                else
                  let (error, s2) =
                        (case dev_type_pm (devs s1 d) of
                           Some pm \<Rightarrow>
                             (case prepare pm of
                                Some f \<Rightarrow> invoke d Type_tier Prepare (f d) s1
                              | None \<Rightarrow> (0, s1))
                         | None \<Rightarrow> (0, s1))
                  in if error \<noteq> 0 then (error, s2)
                     else
                       (case dev_class_pm (devs s2 d) of
                          Some pm \<Rightarrow>
                            (case prepare pm of
                               Some f \<Rightarrow> invoke d Class_tier Prepare (f d) s2
                             | None \<Rightarrow> (0, s2))
                        | None \<Rightarrow> (0, s2)))
      in (error, emit (Device_unlock d) s3))"

text \<open>
  One pass of the loop of \<^verbatim>\<open>dpm_prepare\<close> up to the second \<^verbatim>\<open>mutex_lock\<close>:
  the status becomes \<^verbatim>\<open>DPM_PREPARING\<close>, the lock is dropped, and either the
  wake-up check answers \<^verbatim>\<open>-EBUSY\<close> or \<^verbatim>\<open>device_prepare\<close> runs.
\<close>

definition dpm_prepare_device :: "nat \<Rightarrow> pm_message \<Rightarrow> 'w pm_state \<Rightarrow> int \<times> 'w pm_state" where
  "dpm_prepare_device dev state s =
     (let s1 = set_status dev DPM_PREPARING s;
          s2 = mutex_unlock s1;
          s3 = pm_runtime_get_noresume dev s2;
          (error, s4) =
            (if runtime_barrier (devs s3 dev) \<noteq> 0 \<and> may_wakeup (devs s3 dev)
             then (- EBUSY, pm_runtime_put_sync dev s3)
             else device_prepare dev state s3)
      in (error, mutex_lock s4))"

partial_function (option) dpm_prepare_loop ::
    "pm_message \<Rightarrow> nat list \<Rightarrow> 'w pm_state \<Rightarrow> (int \<times> nat list \<times> 'w pm_state) option" where
  "dpm_prepare_loop state list s =
     (if dpm_list s = [] then Some (0, list, s)
      else
        let dev = hd (dpm_list s);
            (error, s1) = dpm_prepare_device dev state s
        in if error \<noteq> 0 then
             (let s2 = set_status dev DPM_ON s1
              in if error = - EAGAIN then dpm_prepare_loop state list s2
                 else Some (error, list, s2))
           else
             (let s2 = set_status dev DPM_SUSPENDING s1
              in dpm_prepare_loop state (list @ [dev]) (s2\<lparr>dpm_list := tl (dpm_list s2)\<rparr>)))"

definition dpm_prepare :: "pm_message \<Rightarrow> 'w pm_state \<Rightarrow> (int \<times> 'w pm_state) option" where
  "dpm_prepare state s =
     (let s1 = mutex_lock s;
          s2 = s1\<lparr>transition_started := True\<rparr>
      in case dpm_prepare_loop state [] s2 of
           None \<Rightarrow> None
         | Some (error, list, s3) \<Rightarrow>
             Some (error, mutex_unlock (s3\<lparr>dpm_list := list @ dpm_list s3\<rparr>)))"

section \<open>What a step on one device leaves alone\<close>

lemma emit_simps [simp]:
  "devs (emit e s) = devs s"
  "dpm_list (emit e s) = dpm_list s"
  "dpm_list_mtx (emit e s) = dpm_list_mtx s"
  "transition_started (emit e s) = transition_started s"
  "pm_transition (emit e s) = pm_transition s"
  "async_error (emit e s) = async_error s"
  "pm_async_enabled (emit e s) = pm_async_enabled s"
  "pm_trace_enabled (emit e s) = pm_trace_enabled s"
  "jiffies (emit e s) = jiffies s"
  "HZ (emit e s) = HZ s"
  "BITS_PER_LONG (emit e s) = BITS_PER_LONG s"
  "current_task (emit e s) = current_task s"
  "async_pending (emit e s) = async_pending s"
  "world (emit e s) = world s"
  "trace (emit e s) = trace s @ [(dpm_list_mtx s, e)]"
  by (simp_all add: emit_def)

lemma upd_dev_simps [simp]:
  "devs (upd_dev d f s) = (devs s)(d := f (devs s d))"
  "dpm_list (upd_dev d f s) = dpm_list s"
  "dpm_list_mtx (upd_dev d f s) = dpm_list_mtx s"
  "transition_started (upd_dev d f s) = transition_started s"
  "pm_transition (upd_dev d f s) = pm_transition s"
  "async_error (upd_dev d f s) = async_error s"
  "pm_async_enabled (upd_dev d f s) = pm_async_enabled s"
  "pm_trace_enabled (upd_dev d f s) = pm_trace_enabled s"
  "jiffies (upd_dev d f s) = jiffies s"
  "HZ (upd_dev d f s) = HZ s"
  "BITS_PER_LONG (upd_dev d f s) = BITS_PER_LONG s"
  "current_task (upd_dev d f s) = current_task s"
  "async_pending (upd_dev d f s) = async_pending s"
  "world (upd_dev d f s) = world s"
  "trace (upd_dev d f s) = trace s"
  by (simp_all add: upd_dev_def)

text \<open>Globals that no per-device function writes.\<close>
definition frame :: "'w pm_state \<Rightarrow> 'w pm_state \<Rightarrow> bool" where
  "frame s s' \<longleftrightarrow>
     dpm_list s' = dpm_list s \<and> dpm_list_mtx s' = dpm_list_mtx s \<and>
     transition_started s' = transition_started s \<and> pm_transition s' = pm_transition s \<and>
     async_error s' = async_error s \<and> pm_async_enabled s' = pm_async_enabled s \<and>
     pm_trace_enabled s' = pm_trace_enabled s \<and> jiffies s' = jiffies s \<and> HZ s' = HZ s \<and>
     BITS_PER_LONG s' = BITS_PER_LONG s \<and> current_task s' = current_task s \<and>
     async_pending s' = async_pending s"

definition same_static :: "'w device \<Rightarrow> 'w device \<Rightarrow> bool" where
  "same_static a b \<longleftrightarrow>
     dev_parent b = dev_parent a \<and> dev_children b = dev_children a \<and> dev_bus b = dev_bus a \<and>
     dev_type b = dev_type a \<and> dev_class b = dev_class a \<and>
     power_async_suspend b = power_async_suspend a \<and> runtime_barrier b = runtime_barrier a \<and>
     may_wakeup b = may_wakeup a"

text \<open>A step that works on device d only.\<close>
definition dstep :: "nat \<Rightarrow> 'w pm_state \<Rightarrow> 'w pm_state \<Rightarrow> bool" where
  "dstep d s s' \<longleftrightarrow>
     frame s s' \<and> (\<forall>x. x \<noteq> d \<longrightarrow> devs s' x = devs s x) \<and> same_static (devs s d) (devs s' d)"

lemma dstep_refl [simp]: "dstep d s s"
  by (simp add: dstep_def frame_def same_static_def)

lemma dstep_trans: "dstep d s s1 \<Longrightarrow> dstep d s1 s2 \<Longrightarrow> dstep d s s2"
  by (simp add: dstep_def frame_def same_static_def)

lemma dstep_emit [simp]: "dstep d s (emit e s')  = dstep d s s'"
  by (simp add: dstep_def frame_def same_static_def)

lemma dstep_set_status [simp]: "dstep d s (set_status d st s') = dstep d s s'"
  by (simp add: dstep_def frame_def same_static_def set_status_def)

lemma dstep_complete_all [simp]: "dstep d s (complete_all d s') = dstep d s s'"
  by (simp add: dstep_def frame_def same_static_def complete_all_def)

lemma dstep_INIT [simp]: "dstep d s (INIT_COMPLETION d s') = dstep d s s'"
  by (simp add: dstep_def frame_def same_static_def INIT_COMPLETION_def)

lemma dstep_invoke [simp]: "dstep d s (snd (invoke d t sl f s')) = dstep d s s'"
  by (simp add: dstep_def frame_def same_static_def invoke_def Let_def split_def)

lemma dstep_invoke_void [simp]: "dstep d s (invoke_void d t sl f s') = dstep d s s'"
  by (simp add: dstep_def frame_def same_static_def invoke_void_def Let_def split_def)

lemma dstep_run_callback [simp]: "dstep d s (snd (dpm_run_callback d t sl cb s')) = dstep d s s'"
  by (simp add: dpm_run_callback_def split: option.split)

lemma dstep_legacy_suspend [simp]: "dstep d s (snd (legacy_suspend d t st cb s')) = dstep d s s'"
  by (simp add: legacy_suspend_def)

lemma dstep_wait [simp]: "dstep d s (snd (dpm_wait c a s')) = dstep d s s'"
  by (simp add: dpm_wait_def wait_for_completion_def split: option.split)

lemma dstep_wait_each [simp]: "dstep d s (snd (dpm_wait_fn_each cs a s')) = dstep d s s'"
  by (induction cs arbitrary: s') (simp_all add: split_def split: outcome.split)

lemma dstep_resume_bus [simp]: "dstep d s (snd (device_resume_bus d s')) = dstep d s s'"
  by (simp add: device_resume_bus_def split: option.split)

lemma dstep_resume_type [simp]: "dstep d s (snd (device_resume_type d s')) = dstep d s s'"
  by (simp add: device_resume_type_def split: option.split)

lemma dstep_resume_class [simp]: "dstep d s (snd (device_resume_class d s')) = dstep d s s'"
  by (simp add: device_resume_class_def split: option.split)

lemma dstep_resume_wait [simp]: "dstep d s (snd (device_resume_wait d a s')) = dstep d s s'"
  by (simp add: device_resume_wait_def split: option.split)

lemma dstep_device_resume [simp]: "dstep d s (snd (device_resume d st a s')) = dstep d s s'"
  by (simp add: device_resume_def Let_def split_def split: outcome.split)

lemma dstep_suspend_class [simp]: "dstep d s (snd (device_suspend_class d st s')) = dstep d s s'"
  by (simp add: device_suspend_class_def split: option.split)

lemma dstep_suspend_type [simp]: "dstep d s (snd (device_suspend_type d s')) = dstep d s s'"
  by (simp add: device_suspend_type_def split: option.split)

lemma dstep_suspend_bus [simp]: "dstep d s (snd (device_suspend_bus d st s')) = dstep d s s'"
  by (simp add: device_suspend_bus_def split: option.split)

lemma dstep_suspend_callbacks [simp]:
  "dstep d s (snd (device_suspend_callbacks d st s')) = dstep d s s'"
  by (simp add: device_suspend_callbacks_def Let_def split_def)

lemma dstep_wait_for_children [simp]:
  "dstep d s (snd (dpm_wait_for_children d a s')) = dstep d s s'"
  by (simp add: dpm_wait_for_children_def)

lemma dstep_uu_device_suspend [simp]:
  "dstep d s (snd (uu_device_suspend d st a s')) = dstep d s s'"
  by (simp add: uu_device_suspend_def Let_def split_def split: outcome.split)

lemma dstep_device_complete [simp]: "dstep d s (device_complete d st s') = dstep d s s'"
  by (simp add: device_complete_def Let_def split: option.split)

lemma dstep_device_prepare [simp]: "dstep d s (snd (device_prepare d st s')) = dstep d s s'"
  by (simp add: device_prepare_def Let_def split_def split: option.split)

lemma dstep_resume_noirq [simp]: "dstep d s (snd (device_resume_noirq d st s')) = dstep d s s'"
  by (simp add: device_resume_noirq_def Let_def split_def split: option.split)

lemma dstep_suspend_noirq [simp]: "dstep d s (snd (device_suspend_noirq d st s')) = dstep d s s'"
  by (simp add: device_suspend_noirq_def Let_def split_def split: option.split)

lemma dstep_dpm_list: "dstep d s s' \<Longrightarrow> dpm_list s' = dpm_list s"
  by (simp add: dstep_def frame_def)

lemma device_resume_dpm_list [simp]: "dpm_list (snd (device_resume d st a s)) = dpm_list s"
  by (rule dstep_dpm_list [of d]) simp

lemma device_complete_dpm_list [simp]: "dpm_list (device_complete d st s) = dpm_list s"
  by (rule dstep_dpm_list [of d]) simp

lemma uu_device_suspend_dpm_list [simp]: "dpm_list (snd (uu_device_suspend d st a s)) = dpm_list s"
  by (rule dstep_dpm_list [of d]) simp

lemma INIT_COMPLETION_dpm_list [simp]: "dpm_list (INIT_COMPLETION d s) = dpm_list s"
  by (simp add: INIT_COMPLETION_def)

lemma async_schedule_dpm_list [simp]: "dpm_list (async_schedule f d s) = dpm_list s"
  by (simp add: async_schedule_def)

lemma device_suspend_dpm_list [simp]: "dpm_list (snd (device_suspend d s)) = dpm_list s"
  by (simp add: device_suspend_def Let_def)

lemma mutex_dpm_list [simp]:
  "dpm_list (mutex_lock s) = dpm_list s" "dpm_list (mutex_unlock s) = dpm_list s"
  by (simp_all add: mutex_lock_def mutex_unlock_def)

lemma misc_dpm_list [simp]:
  "dpm_list (pm_dev_err d e s) = dpm_list s"
  "dpm_list (set_status d st s) = dpm_list s"
  "dpm_list (pm_runtime_put_sync d s) = dpm_list s"
  by (simp_all add: pm_dev_err_def set_status_def pm_runtime_put_sync_def)

section \<open>The loops over the list\<close>

text \<open>
  Each loop moves the device it has handled to the other list under the test
  \<^verbatim>\<open>!list_empty(&dev->power.entry)\<close>. Only \<^verbatim>\<open>device_pm_remove\<close> unlinks an entry, and
  no callback of the embedding calls it during a phase, so the test holds at every
  iteration and the move is written without it.
\<close>

function dpm_resume_loop :: "pm_message \<Rightarrow> nat list \<Rightarrow> 'w pm_state
    \<Rightarrow> unit outcome \<times> nat list \<times> 'w pm_state" where
  "dpm_resume_loop state list s =
     (if dpm_list s = [] then (Returns (), list, s)
      else
        let dev = hd (dpm_list s) in
        if dpm_rank (status_of s dev) \<ge> dpm_rank DPM_OFF \<and> \<not> is_async s dev then
          (case device_resume dev state False (mutex_unlock s) of
             (Blocked, s2) \<Rightarrow> (Blocked, list, s2)
           | (Returns error, s2) \<Rightarrow>
               let s3 = mutex_lock s2;
                   s4 = (if error \<noteq> 0 then pm_dev_err dev error s3 else s3)
               in dpm_resume_loop state (list @ [dev]) (s4\<lparr>dpm_list := tl (dpm_list s4)\<rparr>))
        else
          let s1 = (if status_of s dev = DPM_SUSPENDING then set_status dev DPM_RESUMING s
                    else s)
          in dpm_resume_loop state (list @ [dev]) (s1\<lparr>dpm_list := tl (dpm_list s1)\<rparr>))"
  by pat_completeness auto
termination
proof (relation "measure (\<lambda>(state, list, s). length (dpm_list s))", goal_cases)
  case 1 show ?case by simp
next
  case (2 state list s dev x y u) 
  from 2(4) have "dpm_list y = dpm_list s"
    using device_resume_dpm_list [of dev state False "mutex_unlock s"] by (metis snd_conv mutex_dpm_list(2))
  with 2 show ?case by simp
next
  case 3 then show ?case by simp
qed


definition dpm_resume :: "pm_message \<Rightarrow> 'w pm_state \<Rightarrow> unit outcome \<times> 'w pm_state" where
  "dpm_resume state s =
     (let s1 = mutex_lock s;
          s2 = s1\<lparr>pm_transition := state\<rparr>;
          s3 = dpm_resume_each (dpm_list s2) s2
      in case dpm_resume_loop state [] s3 of
           (Blocked, list, s4) \<Rightarrow> (Blocked, s4)
         | (Returns u, list, s4) \<Rightarrow>
             async_synchronize_full (mutex_unlock (s4\<lparr>dpm_list := list @ dpm_list s4\<rparr>)))"

function dpm_complete_loop :: "pm_message \<Rightarrow> nat list \<Rightarrow> 'w pm_state
    \<Rightarrow> nat list \<times> 'w pm_state" where
  "dpm_complete_loop state list s =
     (if dpm_list s = [] then (list, s)
      else
        let dev = last (dpm_list s);
            s4 = (if dpm_rank (status_of s dev) > dpm_rank DPM_ON then
                    let s1 = set_status dev DPM_ON s;
                        s2 = device_complete dev state (mutex_unlock s1);
                        s3 = pm_runtime_put_sync dev s2
                    in mutex_lock s3
                  else s)
        in dpm_complete_loop state (dev # list) (s4\<lparr>dpm_list := butlast (dpm_list s4)\<rparr>))"
  by pat_completeness auto
termination
  by (relation "measure (\<lambda>(state, list, s). length (dpm_list s))") (auto simp: Let_def)

definition dpm_complete :: "pm_message \<Rightarrow> 'w pm_state \<Rightarrow> 'w pm_state" where
  "dpm_complete state s =
     (let s1 = mutex_lock s;
          s2 = s1\<lparr>transition_started := False\<rparr>;
          (list, s3) = dpm_complete_loop state [] s2
      in mutex_unlock (s3\<lparr>dpm_list := list @ dpm_list s3\<rparr>))"

definition dpm_resume_end :: "pm_message \<Rightarrow> 'w pm_state \<Rightarrow> unit outcome \<times> 'w pm_state" where
  "dpm_resume_end state s =
     (case dpm_resume state s of
        (Blocked, s1) \<Rightarrow> (Blocked, s1)
      | (Returns u, s1) \<Rightarrow> (Returns (), dpm_complete state s1))"

function dpm_suspend_loop :: "pm_message \<Rightarrow> nat list \<Rightarrow> 'w pm_state
    \<Rightarrow> int outcome \<times> nat list \<times> 'w pm_state" where
  "dpm_suspend_loop state list s =
     (if dpm_list s = [] then (Returns 0, list, s)
      else
        let dev = last (dpm_list s) in
        case device_suspend dev (mutex_unlock s) of
          (Blocked, s2) \<Rightarrow> (Blocked, list, s2)
        | (Returns error, s2) \<Rightarrow>
            let s3 = mutex_lock s2 in
            if error \<noteq> 0 then (Returns error, list, pm_dev_err dev error s3)
            else
              let s4 = s3\<lparr>dpm_list := butlast (dpm_list s3)\<rparr> in
              if async_error s4 \<noteq> 0 then (Returns error, dev # list, s4)
              else dpm_suspend_loop state (dev # list) s4)"
  by pat_completeness auto
termination
proof (relation "measure (\<lambda>(state, list, s). length (dpm_list s))", goal_cases)
  case 1 show ?case by simp
next
  case (2 state list s dev x y u)
  from 2(3) have "dpm_list y = dpm_list s"
    using device_suspend_dpm_list [of dev "mutex_unlock s"] by (metis snd_conv mutex_dpm_list(2))
  with 2 show ?case by simp
qed

definition dpm_suspend :: "pm_message \<Rightarrow> 'w pm_state \<Rightarrow> int outcome \<times> 'w pm_state" where
  "dpm_suspend state s =
     (let s1 = mutex_lock s;
          s2 = s1\<lparr>pm_transition := state, async_error := 0\<rparr>
      in case dpm_suspend_loop state [] s2 of
           (Blocked, list, s3) \<Rightarrow> (Blocked, s3)
         | (Returns error, list, s3) \<Rightarrow>
             (case async_synchronize_full (mutex_unlock (s3\<lparr>dpm_list := dpm_list s3 @ list\<rparr>)) of
                (Blocked, s4) \<Rightarrow> (Blocked, s4)
              | (Returns u, s4) \<Rightarrow>
                  (Returns (if error = 0 then async_error s4 else error), s4)))"

definition dpm_suspend_start :: "pm_message \<Rightarrow> 'w pm_state
    \<Rightarrow> (int outcome \<times> 'w pm_state) option" where
  "dpm_suspend_start state s =
     (case dpm_prepare state s of
        None \<Rightarrow> None
      | Some (error, s1) \<Rightarrow>
          if error = 0 then Some (dpm_suspend state s1) else Some (Returns error, s1))"

declare dpm_prepare_loop.simps [code]

section \<open>Waiting and signalling\<close>

lemma wait_devs [simp]: "devs (snd (dpm_wait c a s)) = devs s"
  by (simp add: dpm_wait_def wait_for_completion_def split: option.split)

lemma wait_each_devs [simp]: "devs (snd (dpm_wait_fn_each cs a s)) = devs s"
  by (induction cs arbitrary: s) (simp_all add: split_def split: outcome.split)

lemma wait_blocked:
  "fst (dpm_wait c a s) = Blocked \<longleftrightarrow>
     (\<exists>d. c = Some d \<and> (a \<or> (pm_async_enabled s \<and> power_async_suspend (devs s d)))
          \<and> \<not> power_completion (devs s d))"
  by (cases c) (auto simp add: dpm_wait_def wait_for_completion_def)

lemma wait_async_enabled [simp]: "pm_async_enabled (snd (dpm_wait c a s)) = pm_async_enabled s"
  by (simp add: dpm_wait_def wait_for_completion_def split: option.split)

lemma wait_each_blocked:
  "fst (dpm_wait_fn_each cs a s) = Blocked \<longleftrightarrow>
     (\<exists>c \<in> set cs. (a \<or> (pm_async_enabled s \<and> power_async_suspend (devs s c)))
          \<and> \<not> power_completion (devs s c))"
proof (induction cs arbitrary: s)
  case Nil
  show ?case by simp
next
  case (Cons c cs)
  show ?case
  proof (cases "fst (dpm_wait (Some c) a s)")
    case Blocked
    then show ?thesis using wait_blocked [of "Some c" a s]
      by (auto simp: split_def)
  next
    case (Returns u)
    then have "\<not> ((a \<or> (pm_async_enabled s \<and> power_async_suspend (devs s c)))
          \<and> \<not> power_completion (devs s c))"
      using wait_blocked [of "Some c" a s] by auto
    with Returns show ?thesis
      using Cons.IH [of "snd (dpm_wait (Some c) a s)"] by (auto simp: split_def)
  qed
qed

lemma complete_all_completion [simp]: "power_completion (devs (complete_all d s) d)"
  by (simp add: complete_all_def)

lemma complete_all_trace [simp]:
  "trace (complete_all d s) = trace s @ [(dpm_list_mtx s, Complete_all d)]"
  by (simp add: complete_all_def)

lemma dstep_mtx: "dstep d s s' \<Longrightarrow> dpm_list_mtx s' = dpm_list_mtx s"
  by (simp add: dstep_def frame_def)

lemma uu_device_suspend_signals:
  "fst (uu_device_suspend d st a s) = Returns e \<Longrightarrow>
     power_completion (devs (snd (uu_device_suspend d st a s)) d) \<and>
     last (trace (snd (uu_device_suspend d st a s))) = (dpm_list_mtx s, Complete_all d)"
proof -
  assume r: "fst (uu_device_suspend d st a s) = Returns e"
  define s1 where "s1 = snd (dpm_wait_for_children d a s)"
  define s6 where "s6 = emit (Del_timer (dpm_drv_wd_timer d s1)) (emit (Device_unlock d)
      (snd (device_suspend_callbacks d st (emit (Device_lock d)
         (emit (Add_timer (dpm_drv_wd_timer d s1)) s1)))))"
  from r have eq: "snd (uu_device_suspend d st a s) = complete_all d s6"
    by (auto simp: uu_device_suspend_def Let_def split_def s1_def s6_def split: outcome.splits)
  have "dstep d s s6" by (simp add: s6_def s1_def)
  then have "dpm_list_mtx s6 = dpm_list_mtx s" by (rule dstep_mtx)
  with eq show ?thesis by simp
qed

lemma uu_device_suspend_blocked:
  "fst (uu_device_suspend d st a s) = Blocked \<longleftrightarrow>
     (\<exists>c \<in> set (dev_children (devs s d)).
        (a \<or> (pm_async_enabled s \<and> power_async_suspend (devs s c)))
        \<and> \<not> power_completion (devs s c))"
  using wait_each_blocked [of "dev_children (devs s d)" a s]
  by (auto simp: uu_device_suspend_def dpm_wait_for_children_def Let_def split_def
           split: outcome.splits)

lemma resume_wait_blocked:
  "fst (device_resume_wait d a s) = Blocked \<longleftrightarrow>
     (\<exists>p. dev_parent (devs s d) = Some p \<and>
        (dpm_rank (status_of s p) \<ge> dpm_rank DPM_OFF \<or> status_of s p = DPM_RESUMING) \<and>
        (a \<or> (pm_async_enabled s \<and> power_async_suspend (devs s p))) \<and>
        \<not> power_completion (devs s p))"
  using wait_blocked [of "dev_parent (devs s d)" a s]
  by (auto simp: device_resume_wait_def split: option.splits)

lemma device_resume_blocked:
  "fst (device_resume d st a s) = Blocked \<longleftrightarrow> fst (device_resume_wait d a s) = Blocked"
  by (auto simp: device_resume_def Let_def split_def split: outcome.splits)

lemma device_resume_signals:
  "fst (device_resume d st a s) = Returns e \<Longrightarrow>
     power_completion (devs (snd (device_resume d st a s)) d) \<and>
     last (trace (snd (device_resume d st a s))) = (dpm_list_mtx s, Complete_all d)"
proof -
  assume r: "fst (device_resume d st a s) = Returns e"
  define s3 where "s3 = set_status d DPM_RESUMING (emit (Device_lock d) (snd (device_resume_wait d a s)))"
  define s5 where "s5 = emit (Device_unlock d)
     (if fst (device_resume_bus d s3) \<noteq> 0 then snd (device_resume_bus d s3)
      else if fst (device_resume_type d (snd (device_resume_bus d s3))) \<noteq> 0
           then snd (device_resume_type d (snd (device_resume_bus d s3)))
           else snd (device_resume_class d (snd (device_resume_type d (snd (device_resume_bus d s3))))))"
  from r have eq: "snd (device_resume d st a s) = complete_all d s5"
    by (auto simp: device_resume_def Let_def split_def s3_def s5_def split: outcome.splits)
  have "dstep d s s5" by (simp add: s5_def s3_def)
  then have "dpm_list_mtx s5 = dpm_list_mtx s" by (rule dstep_mtx)
  with eq show ?thesis by simp
qed


section \<open>Concrete devices\<close>

definition plain_device :: "nat device" where
  "plain_device =
     \<lparr>dev_parent = None, dev_children = [], dev_bus = None, dev_type = None, dev_class = None,
      power_status = DPM_ON, power_completion = True, power_async_suspend = False,
      power_usage_count = 0, runtime_barrier = 0, may_wakeup = False\<rparr>"

definition no_ops :: "nat dev_pm_ops" where
  "no_ops = \<lparr>prepare = None, complete = None, suspend = None, resume = None,
     suspend_noirq = None, resume_noirq = None\<rparr>"

text \<open>A callback that answers \<open>r\<close> and counts the call in the world.\<close>
definition counting :: "int \<Rightarrow> nat callback" where
  "counting r d w = (r, Suc w)"

definition bus_with :: "nat dev_pm_ops \<Rightarrow> nat bus_type" where
  "bus_with pm = \<lparr>bus_pm = Some pm, bus_suspend = None, bus_resume = None\<rparr>"

definition boot :: "(nat \<Rightarrow> nat device) \<Rightarrow> nat list \<Rightarrow> nat pm_state" where
  "boot ds l =
     \<lparr>devs = ds, dpm_list = l, dpm_list_mtx = False, transition_started = False,
      pm_transition = PM_EVENT_ON, async_error = 0, pm_async_enabled = False,
      pm_trace_enabled = False, jiffies = 0, HZ = 100, BITS_PER_LONG = 32, current_task = 0,
      async_pending = [], world = 0,
      trace = []\<rparr>"

text \<open>Device 1 is marked for asynchronous suspend; device 0 is in the middle of a phase.\<close>
definition waiting_pair :: "nat pm_state" where
  "waiting_pair =
     boot ((\<lambda>_. plain_device)
             (0 := plain_device\<lparr>power_completion := False\<rparr>,
              1 := plain_device\<lparr>power_async_suspend := True\<rparr>)) [0, 1]"

section \<open>When \<^verbatim>\<open>dpm_wait\<close> waits\<close>

text \<open>
  Claim C9, as the code has it. \<^verbatim>\<open>dpm_wait(dev, async)\<close> calls
  \<^verbatim>\<open>wait_for_completion\<close> exactly when \<open>dev\<close> is not NULL and either \<open>async\<close> is
  set or \<^verbatim>\<open>pm_async_enabled\<close> is set and \<open>dev\<close> is marked \<^verbatim>\<open>async_suspend\<close>;
  otherwise it returns at once and leaves the state alone, also when the completion of
  \<open>dev\<close> is not done. With \<^verbatim>\<open>pm_async_enabled\<close> clear, the waits of the phase
  drivers (\<^verbatim>\<open>dpm_wait_for_children\<close> and the parent wait of \<^verbatim>\<open>device_resume\<close>,
  both called with \<open>async = false\<close>) do nothing. \<^verbatim>\<open>device_pm_wait_for_dev\<close> passes
  the subordinate's own \<^verbatim>\<open>async_suspend\<close> flag as \<open>async\<close>: it blocks exactly when
  that flag (or the global flag together with the flag of \<open>dev\<close>) is set and the
  completion of \<open>dev\<close> is not done, whatever \<^verbatim>\<open>pm_async_enabled\<close> says.
\<close>

theorem dpm_wait_condition:
  "dpm_wait dev async s =
     (if dev \<noteq> None \<and> (async \<or> (pm_async_enabled s \<and> power_async_suspend (devs s (the dev))))
      then wait_for_completion (the dev) s else (Returns (), s))
   \<and> (\<not> pm_async_enabled s \<longrightarrow>
        dpm_wait dev False s = (Returns (), s) \<and>
        dpm_wait_for_children d False s = (Returns (), s) \<and>
        device_resume_wait d False s = (Returns (), s))
   \<and> device_pm_wait_for_dev sub dev s = dpm_wait dev (power_async_suspend (devs s sub)) s
   \<and> (fst (device_pm_wait_for_dev sub dev s) = Blocked \<longleftrightarrow>
        dev \<noteq> None \<and>
        (power_async_suspend (devs s sub) \<or>
         (pm_async_enabled s \<and> power_async_suspend (devs s (the dev)))) \<and>
        \<not> power_completion (devs s (the dev)))"
proof -
  have seq: "dpm_wait c False s = (Returns (), s)" if "\<not> pm_async_enabled s" for c
    using that by (simp add: dpm_wait_def split: option.split)
  have each: "dpm_wait_fn_each cs False s = (Returns (), s)" if "\<not> pm_async_enabled s" for cs
    using that by (induction cs) (simp_all add: seq)
  have "dpm_wait dev async s =
     (if dev \<noteq> None \<and> (async \<or> (pm_async_enabled s \<and> power_async_suspend (devs s (the dev))))
      then wait_for_completion (the dev) s else (Returns (), s))"
    by (cases dev) (simp_all add: dpm_wait_def)
  moreover have "\<not> pm_async_enabled s \<longrightarrow>
        dpm_wait dev False s = (Returns (), s) \<and>
        dpm_wait_for_children d False s = (Returns (), s) \<and>
        device_resume_wait d False s = (Returns (), s)"
    by (simp add: seq each dpm_wait_for_children_def device_resume_wait_def split: option.split)
  moreover have "device_pm_wait_for_dev sub dev s =
      dpm_wait dev (power_async_suspend (devs s sub)) s"
    by (simp add: device_pm_wait_for_dev_def)
  moreover have "fst (device_pm_wait_for_dev sub dev s) = Blocked \<longleftrightarrow>
        dev \<noteq> None \<and>
        (power_async_suspend (devs s sub) \<or>
         (pm_async_enabled s \<and> power_async_suspend (devs s (the dev)))) \<and>
        \<not> power_completion (devs s (the dev))"
    using wait_blocked [of dev "power_async_suspend (devs s sub)" s]
    by (auto simp: device_pm_wait_for_dev_def)
  ultimately show ?thesis by blast
qed

theorem dpm_wait_condition_witness:
  "\<not> pm_async_enabled waiting_pair \<and>
   dpm_wait (Some 0) False waiting_pair = (Returns (), waiting_pair) \<and>
   dpm_wait_for_children 1 False waiting_pair = (Returns (), waiting_pair) \<and>
   device_resume_wait 1 False waiting_pair = (Returns (), waiting_pair) \<and>
   fst (device_pm_wait_for_dev 1 (Some 0) waiting_pair) = Blocked"
proof -
  have a: "\<not> pm_async_enabled waiting_pair"
    by (simp add: waiting_pair_def boot_def)
  have b: "power_async_suspend (devs waiting_pair 1)"
    by (simp add: waiting_pair_def boot_def plain_device_def)
  have c: "\<not> power_completion (devs waiting_pair 0)"
    by (simp add: waiting_pair_def boot_def plain_device_def)
  show ?thesis
    using dpm_wait_condition [of "Some 0" False waiting_pair 1 1] a b c by auto
qed

text \<open>
  Claim C9 as stated fails: with asynchronous suspend disabled globally,
  \<^verbatim>\<open>device_pm_wait_for_dev\<close> still blocks on the unfinished device 0 when the
  subordinate device 1 is marked \<^verbatim>\<open>async_suspend\<close>.
\<close>

theorem wait_for_dev_sequential_counterexample:
  "\<not> pm_async_enabled waiting_pair \<and>
   \<not> power_completion (devs waiting_pair 0) \<and>
   fst (device_pm_wait_for_dev 1 (Some 0) waiting_pair) = Blocked \<and>
   device_pm_wait_for_dev 1 (Some 0) waiting_pair \<noteq> (Returns (), waiting_pair)"
  by (simp add: waiting_pair_def boot_def plain_device_def device_pm_wait_for_dev_def
        dpm_wait_def wait_for_completion_def)

definition ops_ok :: "nat dev_pm_ops" where
  "ops_ok = \<lparr>prepare = Some (counting 0), complete = Some (\<lambda>d w. Suc w),
     suspend = Some (counting 0), resume = Some (counting 0),
     suspend_noirq = Some (counting 0), resume_noirq = Some (counting 0)\<rparr>"

text \<open>
  Device 0 is the parent of device 1; both sit on a bus with the full set of callbacks.
  The suspend callback of the parent answers \<open>r\<close>.
\<close>
definition parent_child :: "int \<Rightarrow> nat pm_state" where
  "parent_child r =
     boot ((\<lambda>_. plain_device)
             (0 := plain_device\<lparr>dev_children := [1],
                     dev_bus := Some (bus_with (ops_ok\<lparr>suspend := Some (counting r)\<rparr>))\<rparr>,
              1 := plain_device\<lparr>dev_parent := Some 0, dev_bus := Some (bus_with ops_ok)\<rparr>))
          [0, 1]"

text \<open>The equations that run the functions of the file on a concrete state.\<close>

lemmas run_defs =
  dpm_suspend_def dpm_suspend_loop.simps device_suspend_def uu_device_suspend_def dpm_drv_wd_timer_def
  dpm_resume_def dpm_resume_loop.simps dpm_resume_each.simps device_resume_def
  device_resume_wait_def device_resume_bus_def device_resume_type_def device_resume_class_def
  dpm_complete_def dpm_complete_loop.simps device_complete_def dpm_resume_end_def
  dpm_suspend_start_def dpm_prepare_def dpm_prepare_loop.simps dpm_prepare_device_def
  device_prepare_def pm_runtime_get_noresume_def pm_runtime_put_sync_def
  dev_bus_pm_def dev_type_pm_def dev_class_pm_def
  dpm_wait_for_children_def dpm_wait_def wait_for_completion_def device_suspend_callbacks_def
  device_suspend_class_def device_suspend_type_def device_suspend_bus_def
  dpm_run_callback_def legacy_suspend_def invoke_def invoke_void_def
  async_synchronize_full_def async_schedule_def
  emit_def mutex_lock_def mutex_unlock_def upd_dev_def set_status_def status_of_def
  INIT_COMPLETION_def complete_all_def pm_dev_err_def is_async_def
  boot_def plain_device_def ops_ok_def bus_with_def counting_def
  Let_def

section \<open>Completions are always signalled\<close>

text \<open>
  Claim C7. Whenever \<^verbatim>\<open>__device_suspend\<close> or \<^verbatim>\<open>device_resume\<close> returns, with
  any result code, the last thing it has done is \<^verbatim>\<open>complete_all\<close> on the device's
  completion, which is then done. The only way for either not to return is its own wait
  at the start: on a child whose completion is not done, or on the parent's. And
  \<^verbatim>\<open>device_pm_remove\<close> signals the completion of the device it takes off the list.
\<close>

theorem completion_always_signalled:
  "(case uu_device_suspend d st a s of
      (Returns e, s') \<Rightarrow>
        power_completion (devs s' d) \<and> last (trace s') = (dpm_list_mtx s, Complete_all d)
    | (Blocked, s') \<Rightarrow> \<exists>c\<in>set (dev_children (devs s d)). \<not> power_completion (devs s c))
   \<and> (case device_resume d st a s of
      (Returns e, s') \<Rightarrow>
        power_completion (devs s' d) \<and> last (trace s') = (dpm_list_mtx s, Complete_all d)
    | (Blocked, s') \<Rightarrow> \<exists>p. dev_parent (devs s d) = Some p \<and> \<not> power_completion (devs s p))
   \<and> power_completion (devs (device_pm_remove d s) d)
   \<and> (dpm_list_mtx s, Complete_all d) \<in> set (trace (device_pm_remove d s))
   \<and> d \<notin> set (dpm_list (device_pm_remove d s))"
proof -
  have 1: "case uu_device_suspend d st a s of
      (Returns e, s') \<Rightarrow>
        power_completion (devs s' d) \<and> last (trace s') = (dpm_list_mtx s, Complete_all d)
    | (Blocked, s') \<Rightarrow> \<exists>c\<in>set (dev_children (devs s d)). \<not> power_completion (devs s c)"
  proof (cases "fst (uu_device_suspend d st a s)")
    case (Returns e)
    from uu_device_suspend_signals [OF this] Returns show ?thesis
      by (simp add: split_def)
  next
    case Blocked
    with uu_device_suspend_blocked [of d st a s] show ?thesis
      by (auto simp: split_def)
  qed
  have 2: "case device_resume d st a s of
      (Returns e, s') \<Rightarrow>
        power_completion (devs s' d) \<and> last (trace s') = (dpm_list_mtx s, Complete_all d)
    | (Blocked, s') \<Rightarrow> \<exists>p. dev_parent (devs s d) = Some p \<and> \<not> power_completion (devs s p)"
  proof (cases "fst (device_resume d st a s)")
    case (Returns e)
    from device_resume_signals [OF this] Returns show ?thesis
      by (simp add: split_def)
  next
    case Blocked
    with device_resume_blocked [of d st a s] resume_wait_blocked [of d a s] show ?thesis
      by (auto simp: split_def)
  qed
  have 3: "power_completion (devs (device_pm_remove d s) d)
   \<and> (dpm_list_mtx s, Complete_all d) \<in> set (trace (device_pm_remove d s))
   \<and> d \<notin> set (dpm_list (device_pm_remove d s))"
    by (simp add: device_pm_remove_def Let_def mutex_lock_def mutex_unlock_def
          complete_all_def)
  from 1 2 3 show ?thesis by blast
qed

theorem completion_always_signalled_witness:
  "fst (uu_device_suspend 0 PM_EVENT_SUSPEND False (parent_child (- 5))) = Returns (- 5) \<and>
   power_completion (devs (snd (uu_device_suspend 0 PM_EVENT_SUSPEND False (parent_child (- 5)))) 0) \<and>
   last (trace (snd (uu_device_suspend 0 PM_EVENT_SUSPEND False (parent_child (- 5)))))
     = (False, Complete_all 0) \<and>
   fst (device_resume 1 PM_EVENT_RESUME False (parent_child 0)) = Returns 0 \<and>
   power_completion (devs (snd (device_resume 1 PM_EVENT_RESUME False (parent_child 0))) 1)"
proof -
  have a: "fst (uu_device_suspend 0 PM_EVENT_SUSPEND False (parent_child (- 5))) = Returns (- 5)"
    by (simp add: run_defs parent_child_def del: emit_simps upd_dev_simps)
  have b: "fst (device_resume 1 PM_EVENT_RESUME False (parent_child 0)) = Returns 0"
    by code_simp
  have c: "\<not> dpm_list_mtx (parent_child (- 5))"
    by (simp add: parent_child_def boot_def)
  from completion_always_signalled [where d = 0 and st = PM_EVENT_SUSPEND and a = False
      and s = "parent_child (- 5)"] a c
  have "power_completion (devs (snd (uu_device_suspend 0 PM_EVENT_SUSPEND False (parent_child (- 5)))) 0) \<and>
   last (trace (snd (uu_device_suspend 0 PM_EVENT_SUSPEND False (parent_child (- 5)))))
     = (False, Complete_all 0)"
    by (simp add: split_def)
  moreover from completion_always_signalled [where d = 1 and st = PM_EVENT_RESUME and a = False
      and s = "parent_child 0"] b
  have "power_completion (devs (snd (device_resume 1 PM_EVENT_RESUME False (parent_child 0))) 1)"
    by (simp add: split_def)
  ultimately show ?thesis using a b by simp
qed

section \<open>The order of the tiers\<close>

fun is_call :: "event \<Rightarrow> bool" where
  "is_call (Call d t sl) = True"
| "is_call _ = False"

definition calls :: "'w pm_state \<Rightarrow> event list" where
  "calls s = filter is_call (map snd (trace s))"

text \<open>
  The dispatch as the specification words it: per phase and device an ordered list of
  optional slots, one per tier, evaluated in that order and stopped at the first slot
  that reports failure. A slot is the callback to run and the event it shows up as.
\<close>

type_synonym 'w plan_slot = "(event \<times> ('w \<Rightarrow> int \<times> 'w)) option"

definition run_slot :: "'w plan_slot \<Rightarrow> 'w \<Rightarrow> int \<times> 'w \<times> event list" where
  "run_slot x w =
     (case x of
        None \<Rightarrow> (0, w, [])
      | Some (ev, f) \<Rightarrow> (fst (f w), snd (f w), [ev]))"

fun run_plan :: "'w plan_slot list \<Rightarrow> 'w \<Rightarrow> int \<times> 'w \<times> event list" where
  "run_plan [] w = (0, w, [])"
| "run_plan (x # xs) w =
     (let (r, w1, ev1) = run_slot x w
      in if r \<noteq> 0 then (r, w1, ev1)
         else let (r', w2, ev2) = run_plan xs w1 in (r', w2, ev1 @ ev2))"

text \<open>
  The slot of a tier: the structured callback when the tier has a \<^verbatim>\<open>pm\<close> table,
  otherwise the legacy function of the tier. A device type has no legacy function.
\<close>

definition structured_or_legacy :: "nat \<Rightarrow> tier \<Rightarrow> slot \<Rightarrow> slot \<Rightarrow> 'w dev_pm_ops option
    \<Rightarrow> ('w dev_pm_ops \<Rightarrow> 'w callback option) \<Rightarrow> ('w \<Rightarrow> int \<times> 'w) option \<Rightarrow> 'w plan_slot" where
  "structured_or_legacy d t sl legacy_sl pm sel legacy =
     (case pm of
        Some ops \<Rightarrow> (case sel ops of Some f \<Rightarrow> Some (Call d t sl, f d) | None \<Rightarrow> None)
      | None \<Rightarrow> (case legacy of Some f \<Rightarrow> Some (Call d t legacy_sl, f) | None \<Rightarrow> None))"

definition suspend_plan :: "nat \<Rightarrow> pm_message \<Rightarrow> 'w device \<Rightarrow> 'w plan_slot list" where
  "suspend_plan d state dv =
     [case dev_class dv of
        None \<Rightarrow> None
      | Some c \<Rightarrow> structured_or_legacy d Class_tier Suspend Legacy_suspend (class_pm c) suspend
          (map_option (\<lambda>f. f d state) (class_suspend c)),
      case dev_type dv of
        None \<Rightarrow> None
      | Some t \<Rightarrow> structured_or_legacy d Type_tier Suspend Legacy_suspend (type_pm t) suspend None,
      case dev_bus dv of
        None \<Rightarrow> None
      | Some b \<Rightarrow> structured_or_legacy d Bus_tier Suspend Legacy_suspend (bus_pm b) suspend
          (map_option (\<lambda>f. f d state) (bus_suspend b))]"

definition resume_plan :: "nat \<Rightarrow> 'w device \<Rightarrow> 'w plan_slot list" where
  "resume_plan d dv =
     [case dev_bus dv of
        None \<Rightarrow> None
      | Some b \<Rightarrow> structured_or_legacy d Bus_tier Resume Legacy_resume (bus_pm b) resume
          (map_option (\<lambda>f. f d) (bus_resume b)),
      case dev_type dv of
        None \<Rightarrow> None
      | Some t \<Rightarrow> structured_or_legacy d Type_tier Resume Legacy_resume (type_pm t) resume None,
      case dev_class dv of
        None \<Rightarrow> None
      | Some c \<Rightarrow> structured_or_legacy d Class_tier Resume Legacy_resume (class_pm c) resume
          (map_option (\<lambda>f. f d) (class_resume c))]"

text \<open>What a tier block of the code does, as one slot.\<close>

definition does_slot :: "'w plan_slot \<Rightarrow> 'w pm_state \<Rightarrow> int \<times> 'w pm_state \<Rightarrow> bool" where
  "does_slot x s rs \<longleftrightarrow>
     fst rs = fst (run_slot x (world s)) \<and>
     world (snd rs) = fst (snd (run_slot x (world s))) \<and>
     calls (snd rs) = calls s @ snd (snd (run_slot x (world s))) \<and>
     devs (snd rs) = devs s \<and> async_error (snd rs) = async_error s"

lemma calls_emit [simp]: "calls (emit e s) = calls s @ (if is_call e then [e] else [])"
  by (simp add: calls_def)

lemma calls_world_update [simp]: "calls (s\<lparr>world := w\<rparr>) = calls s"
  by (simp add: calls_def)

lemma does_slot_None [simp]: "does_slot None s (0, s)"
  by (simp add: does_slot_def run_slot_def)

lemma does_slot_invoke [simp]: "does_slot (Some (Call d t sl, f)) s (invoke d t sl f s)"
  by (simp add: does_slot_def run_slot_def invoke_def Let_def split_def)

lemma suspend_class_slot:
  "does_slot (suspend_plan d st (devs s d) ! 0) s (device_suspend_class d st s)"
  by (simp add: suspend_plan_def device_suspend_class_def structured_or_legacy_def
        dpm_run_callback_def legacy_suspend_def split: option.split)

lemma suspend_type_slot:
  "does_slot (suspend_plan d st (devs s d) ! 1) s (device_suspend_type d s)"
  by (simp add: suspend_plan_def device_suspend_type_def structured_or_legacy_def
        dpm_run_callback_def split: option.split)

lemma suspend_bus_slot:
  "does_slot (suspend_plan d st (devs s d) ! 2) s (device_suspend_bus d st s)"
  by (simp add: suspend_plan_def device_suspend_bus_def structured_or_legacy_def
        dpm_run_callback_def legacy_suspend_def split: option.split)

lemma resume_bus_slot:
  "does_slot (resume_plan d (devs s d) ! 0) s (device_resume_bus d s)"
  by (simp add: resume_plan_def device_resume_bus_def structured_or_legacy_def
        dpm_run_callback_def split: option.split)

lemma resume_type_slot:
  "does_slot (resume_plan d (devs s d) ! 1) s (device_resume_type d s)"
  by (simp add: resume_plan_def device_resume_type_def structured_or_legacy_def
        dpm_run_callback_def split: option.split)

lemma resume_class_slot:
  "does_slot (resume_plan d (devs s d) ! 2) s (device_resume_class d s)"
  by (simp add: resume_plan_def device_resume_class_def structured_or_legacy_def
        dpm_run_callback_def split: option.split)

text \<open>Three blocks in a row, each left at the first failure, do the plan.\<close>

lemma three_slots:
  assumes a: "does_slot x s (A s)"
    and b: "does_slot y (snd (A s)) (B (snd (A s)))"
    and c: "does_slot z (snd (B (snd (A s)))) (C (snd (B (snd (A s)))))"
  defines "rs \<equiv> (if fst (A s) \<noteq> 0 then A s
                 else if fst (B (snd (A s))) \<noteq> 0 then B (snd (A s))
                 else C (snd (B (snd (A s)))))"
  shows "fst rs = fst (run_plan [x, y, z] (world s))"
    and "world (snd rs) = fst (snd (run_plan [x, y, z] (world s)))"
    and "calls (snd rs) = calls s @ snd (snd (run_plan [x, y, z] (world s)))"
    and "devs (snd rs) = devs s"
    and "async_error (snd rs) = async_error s"
  using a b c unfolding rs_def does_slot_def
  by (simp_all add: Let_def split_def)


lemma plan3: "length xs = 3 \<Longrightarrow> [xs ! 0, xs ! 1, xs ! 2] = xs"
  by (auto simp: list_eq_iff_nth_eq less_Suc_eq numeral_3_eq_3 numeral_2_eq_2)

lemma suspend_plan_length [simp]: "length (suspend_plan d st dv) = 3"
  by (simp add: suspend_plan_def)

lemma resume_plan_length [simp]: "length (resume_plan d dv) = 3"
  by (simp add: resume_plan_def)

lemma calls_set_status [simp]: "calls (set_status d st s) = calls s"
  by (simp add: set_status_def calls_def)

lemma calls_complete_all [simp]: "calls (complete_all d s) = calls s"
  by (simp add: complete_all_def calls_def)

lemma world_set_status [simp]: "world (set_status d st s) = world s"
  by (simp add: set_status_def)

lemma world_complete_all [simp]: "world (complete_all d s) = world s"
  by (simp add: complete_all_def)

lemma wait_world [simp]: "world (snd (dpm_wait c a s)) = world s"
  by (simp add: dpm_wait_def wait_for_completion_def split: option.split)

lemma wait_calls [simp]: "calls (snd (dpm_wait c a s)) = calls s"
  by (simp add: dpm_wait_def wait_for_completion_def split: option.split)

lemma wait_async_error [simp]: "async_error (snd (dpm_wait c a s)) = async_error s"
  by (simp add: dpm_wait_def wait_for_completion_def split: option.split)

lemma wait_each_world [simp]: "world (snd (dpm_wait_fn_each cs a s)) = world s"
  by (induction cs arbitrary: s) (simp_all add: split_def split: outcome.split)

lemma wait_each_calls [simp]: "calls (snd (dpm_wait_fn_each cs a s)) = calls s"
  by (induction cs arbitrary: s) (simp_all add: split_def split: outcome.split)

lemma wait_each_async_error [simp]: "async_error (snd (dpm_wait_fn_each cs a s)) = async_error s"
  by (induction cs arbitrary: s) (simp_all add: split_def split: outcome.split)

lemma suspend_callbacks_plan:
  assumes "async_error s = 0"
  shows "fst (device_suspend_callbacks d st s) = fst (run_plan (suspend_plan d st (devs s d)) (world s))"
    and "world (snd (device_suspend_callbacks d st s))
           = fst (snd (run_plan (suspend_plan d st (devs s d)) (world s)))"
    and "calls (snd (device_suspend_callbacks d st s))
           = calls s @ snd (snd (run_plan (suspend_plan d st (devs s d)) (world s)))"
proof -
  let ?A = "device_suspend_class d st" and ?B = "device_suspend_type d"
    and ?C = "device_suspend_bus d st"
  let ?p = "suspend_plan d st (devs s d)"
  let ?rs = "if fst (?A s) \<noteq> 0 then ?A s
             else if fst (?B (snd (?A s))) \<noteq> 0 then ?B (snd (?A s))
             else ?C (snd (?B (snd (?A s))))"
  have a: "does_slot (?p ! 0) s (?A s)" by (rule suspend_class_slot)
  then have da: "devs (snd (?A s)) = devs s" by (simp add: does_slot_def)
  have b: "does_slot (?p ! 1) (snd (?A s)) (?B (snd (?A s)))"
    using suspend_type_slot [of d st "snd (?A s)"] da by simp
  then have db: "devs (snd (?B (snd (?A s)))) = devs s" using da by (simp add: does_slot_def)
  have c: "does_slot (?p ! 2) (snd (?B (snd (?A s)))) (?C (snd (?B (snd (?A s)))))"
    using suspend_bus_slot [of d st "snd (?B (snd (?A s)))"] db by simp
  note t = three_slots [of "?p ! 0" s ?A "?p ! 1" ?B "?p ! 2" ?C, OF a b c, unfolded plan3 [OF suspend_plan_length]]
  have r: "fst (device_suspend_callbacks d st s) = fst ?rs"
    using assms by (simp add: device_suspend_callbacks_def Let_def split_def)
  have w: "world (snd (device_suspend_callbacks d st s)) = world (snd ?rs)"
    using assms by (simp add: device_suspend_callbacks_def Let_def split_def)
  have k: "calls (snd (device_suspend_callbacks d st s)) = calls (snd ?rs)"
    using assms by (simp add: device_suspend_callbacks_def Let_def split_def)
  show "fst (device_suspend_callbacks d st s) = fst (run_plan ?p (world s))"
    using r t(1) by simp
  show "world (snd (device_suspend_callbacks d st s)) = fst (snd (run_plan ?p (world s)))"
    using w t(2) by simp
  show "calls (snd (device_suspend_callbacks d st s)) = calls s @ snd (snd (run_plan ?p (world s)))"
    using k t(3) by simp
qed

lemma suspend_callbacks_gate:
  "async_error s \<noteq> 0 \<Longrightarrow> device_suspend_callbacks d st s = (0, s)"
  by (simp add: device_suspend_callbacks_def)


lemma resume_plan_status [simp]: "resume_plan d (dv\<lparr>power_status := st\<rparr>) = resume_plan d dv"
  by (simp add: resume_plan_def)

lemma resume_callbacks_plan:
  fixes s :: "'w pm_state" and d :: nat
  defines "rs \<equiv> (if fst (device_resume_bus d s) \<noteq> 0 then device_resume_bus d s
       else if fst (device_resume_type d (snd (device_resume_bus d s))) \<noteq> 0
            then device_resume_type d (snd (device_resume_bus d s))
            else device_resume_class d (snd (device_resume_type d (snd (device_resume_bus d s)))))"
  shows "fst rs = fst (run_plan (resume_plan d (devs s d)) (world s))"
    and "world (snd rs) = fst (snd (run_plan (resume_plan d (devs s d)) (world s)))"
    and "calls (snd rs) = calls s @ snd (snd (run_plan (resume_plan d (devs s d)) (world s)))"
proof -
  let ?A = "device_resume_bus d" and ?B = "device_resume_type d"
    and ?C = "device_resume_class d"
  let ?p = "resume_plan d (devs s d)"
  have a: "does_slot (?p ! 0) s (?A s)" by (rule resume_bus_slot)
  then have da: "devs (snd (?A s)) = devs s" by (simp add: does_slot_def)
  have b: "does_slot (?p ! 1) (snd (?A s)) (?B (snd (?A s)))"
    using resume_type_slot [of d "snd (?A s)"] da by simp
  then have db: "devs (snd (?B (snd (?A s)))) = devs s" using da by (simp add: does_slot_def)
  have c: "does_slot (?p ! 2) (snd (?B (snd (?A s)))) (?C (snd (?B (snd (?A s)))))"
    using resume_class_slot [of d "snd (?B (snd (?A s)))"] db by simp
  note t = three_slots [of "?p ! 0" s ?A "?p ! 1" ?B "?p ! 2" ?C, OF a b c,
      unfolded plan3 [OF resume_plan_length], folded rs_def]
  show "fst rs = fst (run_plan ?p (world s))" by (rule t(1))
  show "world (snd rs) = fst (snd (run_plan ?p (world s)))" by (rule t(2))
  show "calls (snd rs) = calls s @ snd (snd (run_plan ?p (world s)))" by (rule t(3))
qed

lemma resume_wait_simps [simp]:
  "devs (snd (device_resume_wait d a s)) = devs s"
  "world (snd (device_resume_wait d a s)) = world s"
  "calls (snd (device_resume_wait d a s)) = calls s"
  by (simp_all add: device_resume_wait_def split: option.split)

lemma device_resume_plan:
  assumes "fst (device_resume d st a s) = Returns e"
  shows "e = fst (run_plan (resume_plan d (devs s d)) (world s))"
    and "world (snd (device_resume d st a s))
           = fst (snd (run_plan (resume_plan d (devs s d)) (world s)))"
    and "calls (snd (device_resume d st a s))
           = calls s @ snd (snd (run_plan (resume_plan d (devs s d)) (world s)))"
proof -
  define s3 where "s3 = set_status d DPM_RESUMING (emit (Device_lock d) (snd (device_resume_wait d a s)))"
  have p: "resume_plan d (devs s3 d) = resume_plan d (devs s d)"
    by (simp add: s3_def set_status_def)
  have w: "world s3 = world s" and k: "calls s3 = calls s"
    by (simp_all add: s3_def)
  note t = resume_callbacks_plan [of d s3, unfolded p w k]
  from assms have r: "fst (device_resume_wait d a s) = Returns ()"
    by (cases "fst (device_resume_wait d a s)")
       (auto simp: device_resume_def Let_def split_def split: outcome.splits)
  from assms r show "e = fst (run_plan (resume_plan d (devs s d)) (world s))"
    using t(1) by (simp add: device_resume_def Let_def split_def s3_def cong: if_cong)
  from r show "world (snd (device_resume d st a s))
           = fst (snd (run_plan (resume_plan d (devs s d)) (world s)))"
    using t(2) by (simp add: device_resume_def Let_def split_def s3_def cong: if_cong)
  from r show "calls (snd (device_resume d st a s))
           = calls s @ snd (snd (run_plan (resume_plan d (devs s d)) (world s)))"
    using t(3) by (simp add: device_resume_def Let_def split_def s3_def cong: if_cong)
qed

lemma uu_device_suspend_plan:
  assumes "fst (uu_device_suspend d st a s) = Returns e" and "async_error s = 0"
  shows "e = fst (run_plan (suspend_plan d st (devs s d)) (world s))"
    and "world (snd (uu_device_suspend d st a s))
           = fst (snd (run_plan (suspend_plan d st (devs s d)) (world s)))"
    and "calls (snd (uu_device_suspend d st a s))
           = calls s @ snd (snd (run_plan (suspend_plan d st (devs s d)) (world s)))"
proof -
  define s1 where "s1 = snd (dpm_wait_for_children d a s)"
  define s3 where "s3 = emit (Device_lock d) (emit (Add_timer (dpm_drv_wd_timer d s1)) s1)"
  have f: "devs s3 = devs s" "world s3 = world s" "calls s3 = calls s" "async_error s3 = 0"
    using assms(2) by (simp_all add: s3_def s1_def dpm_wait_for_children_def)
  note t = suspend_callbacks_plan [of s3 d st, OF f(4), unfolded f]
  from assms have r: "fst (dpm_wait_for_children d a s) = Returns ()"
    by (cases "fst (dpm_wait_for_children d a s)")
       (auto simp: uu_device_suspend_def Let_def split_def split: outcome.splits)
  from assms r show "e = fst (run_plan (suspend_plan d st (devs s d)) (world s))"
    using t(1) by (simp add: uu_device_suspend_def Let_def split_def s3_def s1_def cong: if_cong)
  from r show "world (snd (uu_device_suspend d st a s))
           = fst (snd (run_plan (suspend_plan d st (devs s d)) (world s)))"
    using t(2) by (simp add: uu_device_suspend_def Let_def split_def s3_def s1_def cong: if_cong)
  from r show "calls (snd (uu_device_suspend d st a s))
           = calls s @ snd (snd (run_plan (suspend_plan d st (devs s d)) (world s)))"
    using t(3) by (simp add: uu_device_suspend_def Let_def split_def s3_def s1_def cong: if_cong)
qed

lemma uu_device_suspend_gated:
  assumes "async_error s \<noteq> 0"
  shows "fst (uu_device_suspend d st a s) \<noteq> Blocked \<longrightarrow> fst (uu_device_suspend d st a s) = Returns 0"
    and "calls (snd (uu_device_suspend d st a s)) = calls s"
    and "world (snd (uu_device_suspend d st a s)) = world s"
  using assms
  by (simp_all add: uu_device_suspend_def Let_def split_def suspend_callbacks_gate
        dpm_wait_for_children_def split: outcome.split)



text \<open>
  One device with all three tiers: a class with a legacy suspend and resume function
  only, a type whose structured suspend fails with \<open>-5\<close>, and a bus with structured
  callbacks.
\<close>
definition three_tier :: "nat pm_state" where
  "three_tier =
     boot ((\<lambda>_. plain_device)
             (0 := plain_device
                \<lparr>dev_bus := Some (bus_with ops_ok),
                 dev_type := Some \<lparr>type_pm = Some (ops_ok\<lparr>suspend := Some (counting (- 5))\<rparr>)\<rparr>,
                 dev_class := Some \<lparr>class_pm = None,
                                    class_suspend = Some (\<lambda>d st. counting 0 d),
                                    class_resume = Some (counting 0)\<rparr>\<rparr>))
          [0]"

text \<open>
  Claim C6. When \<^verbatim>\<open>__device_suspend\<close> returns and no asynchronous error is pending,
  its result, the driver world it leaves and the callbacks it has entered are those of
  the plan class, type, bus: per tier the structured callback when the tier has a
  \<^verbatim>\<open>pm\<close> table and otherwise the legacy function, never both, stopping at the first
  non-zero result. With \<^verbatim>\<open>async_error\<close> set it enters no callback.
  \<^verbatim>\<open>device_resume\<close> does the same with the plan bus, type, class.
\<close>

theorem callbacks_follow_tier_order:
  "(fst (uu_device_suspend d st a s) = Returns e \<and> async_error s = 0 \<longrightarrow>
      e = fst (run_plan (suspend_plan d st (devs s d)) (world s)) \<and>
      world (snd (uu_device_suspend d st a s))
        = fst (snd (run_plan (suspend_plan d st (devs s d)) (world s))) \<and>
      calls (snd (uu_device_suspend d st a s))
        = calls s @ snd (snd (run_plan (suspend_plan d st (devs s d)) (world s))))
   \<and> (async_error s \<noteq> 0 \<longrightarrow> calls (snd (uu_device_suspend d st a s)) = calls s)
   \<and> (fst (device_resume d st' a' s) = Returns e' \<longrightarrow>
      e' = fst (run_plan (resume_plan d (devs s d)) (world s)) \<and>
      world (snd (device_resume d st' a' s))
        = fst (snd (run_plan (resume_plan d (devs s d)) (world s))) \<and>
      calls (snd (device_resume d st' a' s))
        = calls s @ snd (snd (run_plan (resume_plan d (devs s d)) (world s))))"
  using uu_device_suspend_plan [of d st a s e] uu_device_suspend_gated(2) [of s d st a]
    device_resume_plan [of d st' a' s e']
  by blast

theorem callbacks_follow_tier_order_witness:
  "fst (uu_device_suspend 0 PM_EVENT_SUSPEND False three_tier) = Returns (- 5) \<and>
   async_error three_tier = 0 \<and>
   calls (snd (uu_device_suspend 0 PM_EVENT_SUSPEND False three_tier))
     = [Call 0 Class_tier Legacy_suspend, Call 0 Type_tier Suspend] \<and>
   fst (device_resume 0 PM_EVENT_RESUME False three_tier) = Returns 0 \<and>
   calls (snd (device_resume 0 PM_EVENT_RESUME False three_tier))
     = [Call 0 Bus_tier Resume, Call 0 Type_tier Resume, Call 0 Class_tier Legacy_resume]"
proof -
  have a: "fst (uu_device_suspend 0 PM_EVENT_SUSPEND False three_tier) = Returns (- 5)"
    by (simp add: run_defs three_tier_def del: emit_simps upd_dev_simps)
  have b: "async_error three_tier = 0"
    by (simp add: three_tier_def boot_def)
  have c: "fst (device_resume 0 PM_EVENT_RESUME False three_tier) = Returns 0"
    by code_simp
  have k: "calls three_tier = []"
    by (simp add: three_tier_def boot_def calls_def)
  have p: "snd (snd (run_plan (suspend_plan 0 PM_EVENT_SUSPEND (devs three_tier 0)) (world three_tier)))
      = [Call 0 Class_tier Legacy_suspend, Call 0 Type_tier Suspend]"
    by code_simp
  have q: "snd (snd (run_plan (resume_plan 0 (devs three_tier 0)) (world three_tier)))
      = [Call 0 Bus_tier Resume, Call 0 Type_tier Resume, Call 0 Class_tier Legacy_resume]"
    by code_simp
  show ?thesis
    using callbacks_follow_tier_order [where d = 0 and st = PM_EVENT_SUSPEND and a = False
        and s = three_tier and e = "- 5" and st' = PM_EVENT_RESUME and a' = False and e' = 0]
      a b c k p q
    by simp
qed

section \<open>The suspend watchdog\<close>

fun is_timer :: "event \<Rightarrow> bool" where
  "is_timer (Add_timer t) = True"
| "is_timer (Del_timer t) = True"
| "is_timer _ = False"

text \<open>The callbacks entered and the watchdog armed and disarmed, in order.\<close>
definition guarded :: "'w pm_state \<Rightarrow> event list" where
  "guarded s = filter (\<lambda>e. is_call e \<or> is_timer e) (map snd (trace s))"

definition adds_calls :: "'w pm_state \<Rightarrow> 'w pm_state \<Rightarrow> bool" where
  "adds_calls s s' \<longleftrightarrow>
     (\<exists>cs. list_all is_call cs \<and> guarded s' = guarded s @ cs \<and> calls s' = calls s @ cs)"

lemma adds_calls_refl [simp]: "adds_calls s s"
  by (simp add: adds_calls_def)

lemma adds_calls_trans: "adds_calls s s1 \<Longrightarrow> adds_calls s1 s2 \<Longrightarrow> adds_calls s s2"
  by (fastforce simp: adds_calls_def)

lemma adds_calls_invoke: "adds_calls s (snd (invoke d t sl f s))"
  by (simp add: adds_calls_def invoke_def Let_def split_def guarded_def calls_def)

lemma adds_calls_run_callback: "adds_calls s (snd (dpm_run_callback d t sl cb s))"
  by (simp add: dpm_run_callback_def adds_calls_invoke split: option.split)

lemma adds_calls_set_status: "adds_calls s (set_status d st s)"
  by (simp add: adds_calls_def set_status_def guarded_def calls_def)

lemma adds_calls_suspend_class: "adds_calls s (snd (device_suspend_class d st s))"
  by (simp add: device_suspend_class_def legacy_suspend_def adds_calls_run_callback
        adds_calls_invoke split: option.split)

lemma adds_calls_suspend_type: "adds_calls s (snd (device_suspend_type d s))"
  by (simp add: device_suspend_type_def adds_calls_run_callback split: option.split)

lemma adds_calls_suspend_bus: "adds_calls s (snd (device_suspend_bus d st s))"
  by (simp add: device_suspend_bus_def legacy_suspend_def adds_calls_run_callback
        adds_calls_invoke split: option.split)

lemma adds_calls_suspend_callbacks: "adds_calls s (snd (device_suspend_callbacks d st s))"
proof -
  let ?s1 = "snd (device_suspend_class d st s)"
  let ?s2 = "snd (device_suspend_type d ?s1)"
  let ?s3 = "snd (device_suspend_bus d st ?s2)"
  have 1: "adds_calls s ?s1" by (rule adds_calls_suspend_class)
  have 2: "adds_calls s ?s2" by (rule adds_calls_trans [OF 1 adds_calls_suspend_type])
  have 3: "adds_calls s ?s3" by (rule adds_calls_trans [OF 2 adds_calls_suspend_bus])
  have 4: "adds_calls s (set_status d DPM_OFF ?s3)"
    by (rule adds_calls_trans [OF 3 adds_calls_set_status])
  show ?thesis
    using 1 2 3 4 by (simp add: device_suspend_callbacks_def Let_def split_def)
qed

lemma guarded_emit [simp]:
  "guarded (emit e s) = guarded s @ (if is_call e \<or> is_timer e then [e] else [])"
  by (simp add: guarded_def)

lemma guarded_complete_all [simp]: "guarded (complete_all d s) = guarded s"
  by (simp add: guarded_def complete_all_def)

lemma wait_guarded [simp]: "guarded (snd (dpm_wait c a s)) = guarded s"
  by (simp add: dpm_wait_def wait_for_completion_def split: option.split)

lemma wait_each_guarded [simp]: "guarded (snd (dpm_wait_fn_each cs a s)) = guarded s"
  by (induction cs arbitrary: s) (simp_all add: split_def split: outcome.split)

lemma wait_each_clock [simp]:
  "jiffies (snd (dpm_wait_fn_each cs a s)) = jiffies s"
  "HZ (snd (dpm_wait_fn_each cs a s)) = HZ s"
  "BITS_PER_LONG (snd (dpm_wait_fn_each cs a s)) = BITS_PER_LONG s"
  "current_task (snd (dpm_wait_fn_each cs a s)) = current_task s"
  using dstep_wait_each [of d s cs a s] by (simp_all add: dstep_def frame_def)

lemma wait_each_wd_timer [simp]:
  "dpm_drv_wd_timer d (snd (dpm_wait_fn_each cs a s)) = dpm_drv_wd_timer d s"
  by (simp add: dpm_drv_wd_timer_def)

lemma uu_device_suspend_guarded:
  "guarded (snd (uu_device_suspend d st a s)) =
     (if fst (uu_device_suspend d st a s) = Blocked then guarded s
      else guarded s @ Add_timer (dpm_drv_wd_timer d s)
             # drop (length (calls s)) (calls (snd (uu_device_suspend d st a s)))
             @ [Del_timer (dpm_drv_wd_timer d s)])"
proof (cases "fst (dpm_wait_for_children d a s)")
  case Blocked
  then show ?thesis
    by (simp add: uu_device_suspend_def split_def dpm_wait_for_children_def)
next
  case (Returns u)
  define s1 where "s1 = snd (dpm_wait_for_children d a s)"
  define s3 where "s3 = emit (Device_lock d) (emit (Add_timer (dpm_drv_wd_timer d s)) s1)"
  define s4 where "s4 = snd (device_suspend_callbacks d st s3)"
  have g3: "guarded s3 = guarded s @ [Add_timer (dpm_drv_wd_timer d s)]"
    and k3: "calls s3 = calls s"
    by (simp_all add: s3_def s1_def dpm_wait_for_children_def)
  from adds_calls_suspend_callbacks [of s3 d st]
  obtain cs where cs: "guarded s4 = guarded s3 @ cs" "calls s4 = calls s3 @ cs"
    by (auto simp: adds_calls_def s4_def)
  have eq: "snd (uu_device_suspend d st a s)
      = complete_all d (emit (Del_timer (dpm_drv_wd_timer d s)) (emit (Device_unlock d) s4))"
    using Returns
    by (simp add: uu_device_suspend_def Let_def split_def s4_def s3_def s1_def
          dpm_wait_for_children_def)
  have nb: "fst (uu_device_suspend d st a s) \<noteq> Blocked"
    using Returns by (simp add: uu_device_suspend_def Let_def split_def)
  show ?thesis
    using nb by (simp add: eq cs g3 k3)
qed

text \<open>
  Claim C8. When \<^verbatim>\<open>__device_suspend\<close> gets past its wait it arms the watchdog, every
  callback it enters comes after that, and on every path, whatever the result,
  \<^verbatim>\<open>del_timer_sync\<close> of the same timer comes after the last callback and before the
  function returns; when it blocks in the wait it has armed nothing. The timer that is
  armed has the deadline \<^verbatim>\<open>jiffies + HZ * 12\<close> as an \<^verbatim>\<open>unsigned long\<close>, the
  handler \<^verbatim>\<open>dpm_drv_timeout\<close>, and as data the device and the task that runs
  \<^verbatim>\<open>__device_suspend\<close>. When this timer expires, in whatever state \<open>x\<close> the
  callbacks have brought about, its handler names the device, shows the stack of that
  task and ends in \<^verbatim>\<open>BUG()\<close>: the result is a halted machine, on no condition anything
  else.
\<close>

theorem watchdog_always_disarmed:
  "guarded (snd (uu_device_suspend d st a s)) =
     (if fst (uu_device_suspend d st a s) = Blocked then guarded s
      else guarded s @ Add_timer (dpm_drv_wd_timer d s)
             # drop (length (calls s)) (calls (snd (uu_device_suspend d st a s)))
             @ [Del_timer (dpm_drv_wd_timer d s)])
   \<and> timer_expires (dpm_drv_wd_timer d s) = (jiffies s + HZ s * 12) mod 2 ^ BITS_PER_LONG s
   \<and> timer_function (dpm_drv_wd_timer d s) = Dpm_drv_timeout
   \<and> timer_data (dpm_drv_wd_timer d s) = \<lparr>wd_dev = d, wd_tsk = current_task s\<rparr>
   \<and> timer_expiry (dpm_drv_wd_timer d s) x
       = Halted (x\<lparr>trace := trace x @ [(dpm_list_mtx x, Printk_timeout d),
                                         (dpm_list_mtx x, Show_stack (current_task s)),
                                         (dpm_list_mtx x, BUG)]\<rparr>)"
  using uu_device_suspend_guarded [of d st a s]
  by (simp add: dpm_drv_wd_timer_def timer_expiry_def dpm_drv_timeout_def emit_def)

theorem watchdog_always_disarmed_witness:
  "fst (uu_device_suspend 0 PM_EVENT_SUSPEND False three_tier) \<noteq> Blocked \<and>
   guarded (snd (uu_device_suspend 0 PM_EVENT_SUSPEND False three_tier)) =
     [Add_timer \<lparr>timer_expires = 1200, timer_function = Dpm_drv_timeout,
                 timer_data = \<lparr>wd_dev = 0, wd_tsk = 0\<rparr>\<rparr>,
      Call 0 Class_tier Legacy_suspend, Call 0 Type_tier Suspend,
      Del_timer \<lparr>timer_expires = 1200, timer_function = Dpm_drv_timeout,
                 timer_data = \<lparr>wd_dev = 0, wd_tsk = 0\<rparr>\<rparr>]"
proof -
  have a: "fst (uu_device_suspend 0 PM_EVENT_SUSPEND False three_tier) = Returns (- 5)"
    by (simp add: run_defs three_tier_def del: emit_simps upd_dev_simps)
  have k: "calls (snd (uu_device_suspend 0 PM_EVENT_SUSPEND False three_tier))
     = [Call 0 Class_tier Legacy_suspend, Call 0 Type_tier Suspend]"
    by (simp add: run_defs calls_def three_tier_def del: emit_simps upd_dev_simps)
  have g: "guarded three_tier = []" "calls three_tier = []"
    "dpm_drv_wd_timer 0 three_tier = \<lparr>timer_expires = 1200, timer_function = Dpm_drv_timeout,
                 timer_data = \<lparr>wd_dev = 0, wd_tsk = 0\<rparr>\<rparr>"
    by (simp_all add: three_tier_def boot_def guarded_def calls_def dpm_drv_wd_timer_def)
  show ?thesis
    using watchdog_always_disarmed [where d = 0 and st = PM_EVENT_SUSPEND and a = False
        and s = three_tier and x = three_tier] a k g
    by simp
qed

section \<open>The prepare phase\<close>

text \<open>What a run of a phase shows: the result, the status of some devices, the callbacks entered.\<close>
definition report :: "nat list \<Rightarrow> 'r \<times> 'w pm_state \<Rightarrow> 'r \<times> dpm_state list \<times> event list" where
  "report ds rs = (fst rs, map (status_of (snd rs)) ds, calls (snd rs))"

text \<open>
  Two devices on a bus. The prepare callback of device 0 answers \<open>-EAGAIN\<close> on the
  first call of any callback and 0 afterwards.
\<close>
definition retry_once :: "nat pm_state" where
  "retry_once =
     boot ((\<lambda>_. plain_device)
             (0 := plain_device\<lparr>dev_bus := Some (bus_with
                      (ops_ok\<lparr>prepare := Some (\<lambda>d w. (if w = 0 then - EAGAIN else 0, Suc w))\<rparr>))\<rparr>,
              1 := plain_device\<lparr>dev_bus := Some (bus_with ops_ok)\<rparr>))
          [0, 1]"

text \<open>Device 0 has a wake-up pending and may wake the system up.\<close>
definition wakeup_pending :: "nat pm_state" where
  "wakeup_pending =
     boot ((\<lambda>_. plain_device)
             (0 := plain_device\<lparr>dev_bus := Some (bus_with ops_ok), runtime_barrier := 1,
                     may_wakeup := True\<rparr>,
              1 := plain_device\<lparr>dev_bus := Some (bus_with ops_ok)\<rparr>))
          [0, 1]"

lemma device_prepare_dpm_list [simp]: "dpm_list (snd (device_prepare d st s)) = dpm_list s"
  by (rule dstep_dpm_list [of d]) simp

lemma dpm_prepare_device_dpm_list [simp]:
  "dpm_list (snd (dpm_prepare_device d st s)) = dpm_list s"
  by (simp add: dpm_prepare_device_def Let_def split_def pm_runtime_get_noresume_def)

lemma prepare_loop_retry:
  assumes "dpm_list s \<noteq> []" and "fst (dpm_prepare_device (hd (dpm_list s)) st s) = - EAGAIN"
  shows "dpm_prepare_loop st list s =
     dpm_prepare_loop st list
       (set_status (hd (dpm_list s)) DPM_ON (snd (dpm_prepare_device (hd (dpm_list s)) st s)))"
  using assms
  by (subst dpm_prepare_loop.simps) (simp add: Let_def split_def EAGAIN_def)

lemma prepare_loop_abort:
  assumes "dpm_list s \<noteq> []" and "fst (dpm_prepare_device (hd (dpm_list s)) st s) = e"
    and "e \<noteq> 0" and "e \<noteq> - EAGAIN"
  shows "dpm_prepare_loop st list s =
     Some (e, list,
       set_status (hd (dpm_list s)) DPM_ON (snd (dpm_prepare_device (hd (dpm_list s)) st s)))"
  using assms
  by (subst dpm_prepare_loop.simps) (simp add: Let_def split_def)

lemma prepare_loop_advance:
  assumes "dpm_list s \<noteq> []" and "fst (dpm_prepare_device (hd (dpm_list s)) st s) = 0"
  shows "dpm_prepare_loop st list s =
     dpm_prepare_loop st (list @ [hd (dpm_list s)])
       ((set_status (hd (dpm_list s)) DPM_SUSPENDING
           (snd (dpm_prepare_device (hd (dpm_list s)) st s)))
        \<lparr>dpm_list := tl (dpm_list s)\<rparr>)"
  using assms
  by (subst dpm_prepare_loop.simps) (simp add: Let_def split_def)

lemma suspend_start_cases:
  "dpm_prepare st s = Some (e, s1) \<Longrightarrow>
     dpm_suspend_start st s = (if e = 0 then Some (dpm_suspend st s1) else Some (Returns e, s1))"
  by (simp add: dpm_suspend_start_def)

lemma busy_pass:
  assumes "runtime_barrier (devs s d) \<noteq> 0" and "may_wakeup (devs s d)"
  shows "dpm_prepare_device d st s =
     (- EBUSY, mutex_lock (pm_runtime_put_sync d (pm_runtime_get_noresume d
        (mutex_unlock (set_status d DPM_PREPARING s)))))"
  using assms
  by (simp add: dpm_prepare_device_def Let_def pm_runtime_get_noresume_def mutex_unlock_def
        set_status_def)

lemma busy_pass_state:
  fixes s :: "'w pm_state" and d :: nat
  defines "s' \<equiv> set_status d DPM_ON (mutex_lock (pm_runtime_put_sync d
     (pm_runtime_get_noresume d (mutex_unlock (set_status d DPM_PREPARING s)))))"
  shows "status_of s' d = DPM_ON" and "dpm_list s' = dpm_list s" and "calls s' = calls s"
    and "\<forall>x. x \<noteq> d \<longrightarrow> devs s' x = devs s x"
  by (simp_all add: s'_def status_of_def set_status_def mutex_lock_def mutex_unlock_def
        pm_runtime_put_sync_def pm_runtime_get_noresume_def calls_def)

text \<open>
  Claim C4, as the code has it. When the pass over the device at the head of
  \<^verbatim>\<open>dpm_list\<close> ends with \<^verbatim>\<open>-EAGAIN\<close>, the status of the device is set back to
  \<^verbatim>\<open>DPM_ON\<close>, the error is cleared and the loop goes on; the device has not been moved
  to the local list, so it is still at the head and the next pass prepares the same
  device again. Any other non-zero result ends the loop with that result and the status
  back at \<^verbatim>\<open>DPM_ON\<close>. \<^verbatim>\<open>dpm_suspend_start\<close> returns a non-zero result of
  \<^verbatim>\<open>dpm_prepare\<close> as it is, in the state \<^verbatim>\<open>dpm_prepare\<close> left, and runs
  \<^verbatim>\<open>dpm_suspend\<close> only after the result 0.
\<close>

theorem prepare_retries_or_aborts:
  assumes "dpm_list s \<noteq> []"
  shows "(fst (dpm_prepare_device (hd (dpm_list s)) st s) = - EAGAIN \<longrightarrow>
            dpm_prepare_loop st list s =
              dpm_prepare_loop st list
                (set_status (hd (dpm_list s)) DPM_ON
                   (snd (dpm_prepare_device (hd (dpm_list s)) st s))) \<and>
            status_of (set_status (hd (dpm_list s)) DPM_ON
                   (snd (dpm_prepare_device (hd (dpm_list s)) st s))) (hd (dpm_list s)) = DPM_ON \<and>
            dpm_list (set_status (hd (dpm_list s)) DPM_ON
                   (snd (dpm_prepare_device (hd (dpm_list s)) st s))) = dpm_list s)
       \<and> (fst (dpm_prepare_device (hd (dpm_list s)) st s) \<noteq> 0 \<and>
          fst (dpm_prepare_device (hd (dpm_list s)) st s) \<noteq> - EAGAIN \<longrightarrow>
            dpm_prepare_loop st list s =
              Some (fst (dpm_prepare_device (hd (dpm_list s)) st s), list,
                    set_status (hd (dpm_list s)) DPM_ON
                      (snd (dpm_prepare_device (hd (dpm_list s)) st s))))
       \<and> (dpm_prepare st s0 = Some (e', s') \<and> e' \<noteq> 0 \<longrightarrow>
            dpm_suspend_start st s0 = Some (Returns e', s'))
       \<and> (dpm_prepare st s0 = Some (0, s') \<longrightarrow>
            dpm_suspend_start st s0 = Some (dpm_suspend st s'))"
proof -
  let ?dev = "hd (dpm_list s)"
  let ?e = "fst (dpm_prepare_device ?dev st s)"
  let ?s2 = "set_status ?dev DPM_ON (snd (dpm_prepare_device ?dev st s))"
  have st: "status_of ?s2 ?dev = DPM_ON" and dl: "dpm_list ?s2 = dpm_list s"
    by (simp_all add: status_of_def set_status_def)
  have a: "?e = - EAGAIN \<longrightarrow> dpm_prepare_loop st list s = dpm_prepare_loop st list ?s2"
    using prepare_loop_retry [OF assms(1), of st list] by simp
  have b: "?e \<noteq> 0 \<and> ?e \<noteq> - EAGAIN \<longrightarrow> dpm_prepare_loop st list s = Some (?e, list, ?s2)"
    using prepare_loop_abort [OF assms(1), of st ?e list] by simp
  have c: "dpm_prepare st s0 = Some (e', s') \<and> e' \<noteq> 0 \<longrightarrow>
            dpm_suspend_start st s0 = Some (Returns e', s')"
    by (simp add: suspend_start_cases)
  have d: "dpm_prepare st s0 = Some (0, s') \<longrightarrow>
            dpm_suspend_start st s0 = Some (dpm_suspend st s')"
    by (simp add: suspend_start_cases)
  from a b c d st dl show ?thesis by blast
qed

theorem prepare_retries_or_aborts_witness:
  "dpm_list (mutex_lock retry_once) \<noteq> [] \<and>
   fst (dpm_prepare_device (hd (dpm_list (mutex_lock retry_once))) PM_EVENT_SUSPEND
          (mutex_lock retry_once)) = - EAGAIN \<and>
   dpm_prepare_loop PM_EVENT_SUSPEND [] (mutex_lock retry_once) =
     dpm_prepare_loop PM_EVENT_SUSPEND []
       (set_status (hd (dpm_list (mutex_lock retry_once))) DPM_ON
          (snd (dpm_prepare_device (hd (dpm_list (mutex_lock retry_once))) PM_EVENT_SUSPEND
                  (mutex_lock retry_once)))) \<and>
   fst (dpm_prepare_device (hd (dpm_list (mutex_lock wakeup_pending))) PM_EVENT_SUSPEND
          (mutex_lock wakeup_pending)) = - EBUSY \<and>
   map_option fst (dpm_prepare_loop PM_EVENT_SUSPEND [] (mutex_lock wakeup_pending))
     = Some (- EBUSY) \<and>
   dpm_suspend_start PM_EVENT_SUSPEND wakeup_pending
     = Some (Returns (- EBUSY), snd (the (dpm_prepare PM_EVENT_SUSPEND wakeup_pending))) \<and>
   dpm_suspend_start PM_EVENT_SUSPEND retry_once
     = Some (dpm_suspend PM_EVENT_SUSPEND (snd (the (dpm_prepare PM_EVENT_SUSPEND retry_once))))"
proof -
  have l1: "dpm_list (mutex_lock retry_once) \<noteq> []"
    and l2: "dpm_list (mutex_lock wakeup_pending) \<noteq> []"
    by (simp_all add: retry_once_def wakeup_pending_def boot_def)
  have e1: "fst (dpm_prepare_device (hd (dpm_list (mutex_lock retry_once))) PM_EVENT_SUSPEND
          (mutex_lock retry_once)) = - EAGAIN"
    by code_simp
  have e2: "fst (dpm_prepare_device (hd (dpm_list (mutex_lock wakeup_pending))) PM_EVENT_SUSPEND
          (mutex_lock wakeup_pending)) = - EBUSY"
    by code_simp
  have p1: "dpm_prepare PM_EVENT_SUSPEND wakeup_pending
     = Some (- EBUSY, snd (the (dpm_prepare PM_EVENT_SUSPEND wakeup_pending)))"
  proof -
    have "map_option fst (dpm_prepare PM_EVENT_SUSPEND wakeup_pending) = Some (- EBUSY)"
      by code_simp
    then show ?thesis by (cases "dpm_prepare PM_EVENT_SUSPEND wakeup_pending") auto
  qed
  have p2: "dpm_prepare PM_EVENT_SUSPEND retry_once
     = Some (0, snd (the (dpm_prepare PM_EVENT_SUSPEND retry_once)))"
  proof -
    have "map_option fst (dpm_prepare PM_EVENT_SUSPEND retry_once) = Some 0"
      by code_simp
    then show ?thesis by (cases "dpm_prepare PM_EVENT_SUSPEND retry_once") auto
  qed
  have n: "- EBUSY \<noteq> (0::int)" "- EBUSY \<noteq> - EAGAIN"
    by (simp_all add: EBUSY_def EAGAIN_def)
  note t1 = prepare_retries_or_aborts [OF l1, where st = PM_EVENT_SUSPEND and list = "[]"
      and ?s0.0 = retry_once and s' = "snd (the (dpm_prepare PM_EVENT_SUSPEND retry_once))"
      and e' = 1]
  note t2 = prepare_retries_or_aborts [OF l2, where st = PM_EVENT_SUSPEND and list = "[]"
      and ?s0.0 = wakeup_pending and s' = "snd (the (dpm_prepare PM_EVENT_SUSPEND wakeup_pending))"
      and e' = "- EBUSY"]
  from t1 e1 p2 have a: "dpm_prepare_loop PM_EVENT_SUSPEND [] (mutex_lock retry_once) =
     dpm_prepare_loop PM_EVENT_SUSPEND []
       (set_status (hd (dpm_list (mutex_lock retry_once))) DPM_ON
          (snd (dpm_prepare_device (hd (dpm_list (mutex_lock retry_once))) PM_EVENT_SUSPEND
                  (mutex_lock retry_once))))"
    and b: "dpm_suspend_start PM_EVENT_SUSPEND retry_once
     = Some (dpm_suspend PM_EVENT_SUSPEND (snd (the (dpm_prepare PM_EVENT_SUSPEND retry_once))))"
    by blast+
  from t2 e2 p1 n
  have c: "map_option fst (dpm_prepare_loop PM_EVENT_SUSPEND [] (mutex_lock wakeup_pending))
     = Some (- EBUSY)"
    and d: "dpm_suspend_start PM_EVENT_SUSPEND wakeup_pending
     = Some (Returns (- EBUSY), snd (the (dpm_prepare PM_EVENT_SUSPEND wakeup_pending)))"
    by simp_all
  from l1 e1 a e2 c d b show ?thesis by blast
qed

text \<open>
  Claim C4 as stated fails: the device that answered \<^verbatim>\<open>-EAGAIN\<close> is not skipped. Its
  prepare callback is entered a second time and it ends the phase at
  \<^verbatim>\<open>DPM_SUSPENDING\<close>, not at \<^verbatim>\<open>DPM_ON\<close>.
\<close>

theorem retried_device_is_prepared_counterexample:
  "dpm_prepare PM_EVENT_SUSPEND retry_once \<noteq> None \<and>
   report [0, 1] (the (dpm_prepare PM_EVENT_SUSPEND retry_once)) =
     (0, [DPM_SUSPENDING, DPM_SUSPENDING],
      [Call 0 Bus_tier Prepare, Call 0 Bus_tier Prepare, Call 1 Bus_tier Prepare])"
  by code_simp

section \<open>A wake-up request during prepare\<close>

text \<open>
  Claim C5, as the code has it. When \<^verbatim>\<open>pm_runtime_barrier\<close> answers non-zero for the
  device at the head of the list and the device may wake the system up, the pass yields
  \<^verbatim>\<open>-EBUSY\<close>, which is not \<^verbatim>\<open>-EAGAIN\<close>: the device goes back to \<^verbatim>\<open>DPM_ON\<close>
  without any callback entered and the loop ends with \<^verbatim>\<open>-EBUSY\<close>, the other devices
  untouched. For the first device of the list, \<^verbatim>\<open>dpm_prepare\<close> and
  \<^verbatim>\<open>dpm_suspend_start\<close> return \<^verbatim>\<open>-EBUSY\<close>.
\<close>

theorem wakeup_request_aborts_prepare:
  fixes s :: "'w pm_state"
  assumes "dpm_list s \<noteq> []"
    and "runtime_barrier (devs s (hd (dpm_list s))) \<noteq> 0"
    and "may_wakeup (devs s (hd (dpm_list s)))"
  shows "(\<exists>s'. dpm_prepare_loop st list s = Some (- EBUSY, list, s') \<and>
            status_of s' (hd (dpm_list s)) = DPM_ON \<and> dpm_list s' = dpm_list s \<and>
            calls s' = calls s \<and> (\<forall>x. x \<noteq> hd (dpm_list s) \<longrightarrow> devs s' x = devs s x))
       \<and> map_option fst (dpm_prepare st s) = Some (- EBUSY)
       \<and> map_option fst (dpm_suspend_start st s) = Some (Returns (- EBUSY))"
proof -
  let ?d = "hd (dpm_list s)"
  have loop: "dpm_prepare_loop st list s' =
     Some (- EBUSY, list, set_status ?d DPM_ON (mutex_lock (pm_runtime_put_sync ?d
       (pm_runtime_get_noresume ?d (mutex_unlock (set_status ?d DPM_PREPARING s'))))))"
    if "dpm_list s' = dpm_list s" "devs s' = devs s" for s' :: "'w pm_state" and list
  proof -
    have p: "dpm_prepare_device ?d st s' =
       (- EBUSY, mutex_lock (pm_runtime_put_sync ?d (pm_runtime_get_noresume ?d
          (mutex_unlock (set_status ?d DPM_PREPARING s')))))"
      using assms(2,3) that by (simp add: busy_pass)
    show ?thesis
      using prepare_loop_abort [of s' st "- EBUSY" list] assms(1) that p
      by (simp add: EBUSY_def EAGAIN_def)
  qed
  have 1: "\<exists>s'. dpm_prepare_loop st list s = Some (- EBUSY, list, s') \<and>
            status_of s' ?d = DPM_ON \<and> dpm_list s' = dpm_list s \<and>
            calls s' = calls s \<and> (\<forall>x. x \<noteq> ?d \<longrightarrow> devs s' x = devs s x)"
    using loop [of s list] busy_pass_state [of ?d s] by blast
  have "dpm_list ((mutex_lock s)\<lparr>transition_started := True\<rparr>) = dpm_list s"
    "devs ((mutex_lock s)\<lparr>transition_started := True\<rparr>) = devs s"
    by (simp_all add: mutex_lock_def)
  from loop [OF this, of "[]"]
  have 2: "map_option fst (dpm_prepare st s) = Some (- EBUSY)"
    by (simp add: dpm_prepare_def Let_def)
  then have 3: "map_option fst (dpm_suspend_start st s) = Some (Returns (- EBUSY))"
    by (auto simp: dpm_suspend_start_def EBUSY_def split: option.splits)
  from 1 2 3 show ?thesis by blast
qed


theorem wakeup_request_aborts_prepare_witness:
  "dpm_list wakeup_pending \<noteq> [] \<and>
   runtime_barrier (devs wakeup_pending (hd (dpm_list wakeup_pending))) \<noteq> 0 \<and>
   may_wakeup (devs wakeup_pending (hd (dpm_list wakeup_pending))) \<and>
   map_option fst (dpm_prepare PM_EVENT_SUSPEND wakeup_pending) = Some (- EBUSY) \<and>
   map_option fst (dpm_suspend_start PM_EVENT_SUSPEND wakeup_pending) = Some (Returns (- EBUSY))"
proof -
  have a: "dpm_list wakeup_pending \<noteq> []"
    and b: "runtime_barrier (devs wakeup_pending (hd (dpm_list wakeup_pending))) \<noteq> 0"
    and c: "may_wakeup (devs wakeup_pending (hd (dpm_list wakeup_pending)))"
    by (simp_all add: wakeup_pending_def boot_def plain_device_def)
  from wakeup_request_aborts_prepare [OF a b c, of PM_EVENT_SUSPEND "[]"] a b c
  show ?thesis by blast
qed

text \<open>
  Claim C5 as stated fails: after the wake-up request of device 0 the phase does not
  continue. Device 1 is never prepared and \<^verbatim>\<open>dpm_prepare\<close> returns \<^verbatim>\<open>-EBUSY\<close>.
\<close>

theorem wakeup_request_stops_phase_counterexample:
  "dpm_prepare PM_EVENT_SUSPEND wakeup_pending \<noteq> None \<and>
   report [0, 1] (the (dpm_prepare PM_EVENT_SUSPEND wakeup_pending)) = (- 16, [DPM_ON, DPM_ON], [])"
  by code_simp

section \<open>Lock discipline\<close>

text \<open>
  The events during which \<^verbatim>\<open>dpm_list_mtx\<close> must not be held: a driver callback is
  entered, the thread waits for a completion, the thread waits for the worker threads.
\<close>
fun lock_sensitive :: "event \<Rightarrow> bool" where
  "lock_sensitive (Call d t sl) = True"
| "lock_sensitive (Wait d) = True"
| "lock_sensitive Async_synchronize_full = True"
| "lock_sensitive _ = False"

definition lock_safe :: "(bool \<times> event) list \<Rightarrow> bool" where
  "lock_safe tr = list_all (\<lambda>he. lock_sensitive (snd he) \<longrightarrow> \<not> fst he) tr"

definition unlocked :: "'w pm_state \<Rightarrow> bool" where
  "unlocked s \<longleftrightarrow> \<not> dpm_list_mtx s \<and> lock_safe (trace s)"

definition locked :: "'w pm_state \<Rightarrow> bool" where
  "locked s \<longleftrightarrow> dpm_list_mtx s \<and> lock_safe (trace s)"

lemma unlocked_emit [simp]: "unlocked (emit e s) = unlocked s"
  by (auto simp: unlocked_def lock_safe_def)

lemma locked_emit [simp]: "\<not> lock_sensitive e \<Longrightarrow> locked (emit e s) = locked s"
  by (auto simp: locked_def lock_safe_def)

lemma unlocked_upd_dev [simp]: "unlocked (upd_dev d f s) = unlocked s"
  by (simp add: unlocked_def)

lemma locked_upd_dev [simp]: "locked (upd_dev d f s) = locked s"
  by (simp add: locked_def)

lemma unlocked_safe: "unlocked s \<Longrightarrow> lock_safe (trace s)"
  by (simp add: unlocked_def)

lemma locked_safe: "locked s \<Longrightarrow> lock_safe (trace s)"
  by (simp add: locked_def)

lemma unlocked_prims [simp]:
  "unlocked (set_status d st s) = unlocked s"
  "unlocked (complete_all d s) = unlocked s"
  "unlocked (INIT_COMPLETION d s) = unlocked s"
  "unlocked (pm_runtime_get_noresume d s) = unlocked s"
  "unlocked (pm_runtime_put_sync d s) = unlocked s"
  "unlocked (pm_dev_err d e s) = unlocked s"
  "unlocked (snd (wait_for_completion d s)) = unlocked s"
  "unlocked (async_schedule fn d s) = unlocked s"
  by (auto simp add: set_status_def complete_all_def INIT_COMPLETION_def
        pm_runtime_get_noresume_def pm_runtime_put_sync_def pm_dev_err_def
        wait_for_completion_def async_schedule_def unlocked_def emit_def lock_safe_def)

lemma locked_prims [simp]:
  "locked (set_status d st s) = locked s"
  "locked (INIT_COMPLETION d s) = locked s"
  "locked (pm_dev_err d e s) = locked s"
  "locked (async_schedule fn d s) = locked s"
  "locked (s\<lparr>dpm_list := l\<rparr>) = locked s"
  "locked (s\<lparr>transition_started := b\<rparr>) = locked s"
  "locked (s\<lparr>pm_transition := m\<rparr>) = locked s"
  "locked (s\<lparr>async_error := x\<rparr>) = locked s"
  by (simp_all add: set_status_def INIT_COMPLETION_def pm_dev_err_def async_schedule_def
        locked_def emit_def lock_safe_def)

lemma unlocked_invoke [simp]:
  "unlocked (snd (invoke d t sl f s)) = unlocked s"
  "unlocked (invoke_void d t sl g s) = unlocked s"
  by (auto simp add: invoke_def invoke_void_def Let_def split_def unlocked_def emit_def
        lock_safe_def)

lemma unlocked_run_callback [simp]:
  "unlocked (snd (dpm_run_callback d t sl cb s)) = unlocked s"
  "unlocked (snd (legacy_suspend d t st f s)) = unlocked s"
  by (simp_all add: dpm_run_callback_def legacy_suspend_def split: option.split)

lemma unlocked_wait [simp]: "unlocked (snd (dpm_wait c a s)) = unlocked s"
  by (simp add: dpm_wait_def split: option.split)

lemma unlocked_wait_each [simp]: "unlocked (snd (dpm_wait_fn_each cs a s)) = unlocked s"
  by (induction cs arbitrary: s) (simp_all add: split_def split: outcome.split)

lemma unlocked_tiers [simp]:
  "unlocked (snd (device_suspend_class d st s)) = unlocked s"
  "unlocked (snd (device_suspend_type d s)) = unlocked s"
  "unlocked (snd (device_suspend_bus d st s)) = unlocked s"
  "unlocked (snd (device_resume_bus d s)) = unlocked s"
  "unlocked (snd (device_resume_type d s)) = unlocked s"
  "unlocked (snd (device_resume_class d s)) = unlocked s"
  by (simp_all add: device_suspend_class_def device_suspend_type_def device_suspend_bus_def
        device_resume_bus_def device_resume_type_def device_resume_class_def
        split: option.split)

lemma unlocked_suspend_callbacks [simp]:
  "unlocked (snd (device_suspend_callbacks d st s)) = unlocked s"
  by (simp add: device_suspend_callbacks_def Let_def split_def)

lemma unlocked_uu_device_suspend [simp]:
  "unlocked (snd (uu_device_suspend d st a s)) = unlocked s"
  by (simp add: uu_device_suspend_def dpm_wait_for_children_def Let_def split_def
        split: outcome.split)

lemma unlocked_device_suspend [simp]: "unlocked (snd (device_suspend d s)) = unlocked s"
  by (simp add: device_suspend_def Let_def)

lemma unlocked_device_resume [simp]: "unlocked (snd (device_resume d st a s)) = unlocked s"
  by (simp add: device_resume_def device_resume_wait_def Let_def split_def
        split: outcome.split option.split)

lemma unlocked_device_complete [simp]: "unlocked (device_complete d st s) = unlocked s"
  by (simp add: device_complete_def Let_def split: option.split)

lemma unlocked_device_prepare [simp]: "unlocked (snd (device_prepare d st s)) = unlocked s"
  by (simp add: device_prepare_def Let_def split_def split: option.split)

lemma lock_after_unlocked: "unlocked s \<Longrightarrow> locked (mutex_lock s)"
  by (simp add: unlocked_def locked_def mutex_lock_def emit_def lock_safe_def)

lemma unlock_after_locked: "locked s \<Longrightarrow> unlocked (mutex_unlock s)"
  by (simp add: unlocked_def locked_def mutex_unlock_def emit_def lock_safe_def)

lemma locked_prepare_device: "locked s \<Longrightarrow> locked (snd (dpm_prepare_device d st s))"
proof -
  assume "locked s"
  then have u: "unlocked (mutex_unlock (set_status d DPM_PREPARING s))"
    by (simp add: unlock_after_locked)
  show ?thesis
    by (auto simp add: dpm_prepare_device_def Let_def split_def u intro!: lock_after_unlocked)
qed



declare dpm_suspend_loop.simps [simp del] dpm_resume_loop.simps [simp del]
  dpm_complete_loop.simps [simp del]

lemma dpm_suspend_loop_rule:
  assumes init: "I list s"
    and empty: "\<And>list s. I list s \<Longrightarrow> dpm_list s = [] \<Longrightarrow> Q (Returns 0, list, s)"
    and blocked: "\<And>list s. I list s \<Longrightarrow> dpm_list s \<noteq> [] \<Longrightarrow>
        fst (device_suspend (last (dpm_list s)) (mutex_unlock s)) = Blocked \<Longrightarrow>
        Q (Blocked, list, snd (device_suspend (last (dpm_list s)) (mutex_unlock s)))"
    and failed: "\<And>list s e. I list s \<Longrightarrow> dpm_list s \<noteq> [] \<Longrightarrow>
        fst (device_suspend (last (dpm_list s)) (mutex_unlock s)) = Returns e \<Longrightarrow> e \<noteq> 0 \<Longrightarrow>
        Q (Returns e, list, pm_dev_err (last (dpm_list s)) e
             (mutex_lock (snd (device_suspend (last (dpm_list s)) (mutex_unlock s)))))"
    and async: "\<And>list s. I list s \<Longrightarrow> dpm_list s \<noteq> [] \<Longrightarrow>
        fst (device_suspend (last (dpm_list s)) (mutex_unlock s)) = Returns 0 \<Longrightarrow>
        async_error (snd (device_suspend (last (dpm_list s)) (mutex_unlock s))) \<noteq> 0 \<Longrightarrow>
        Q (Returns 0, last (dpm_list s) # list,
           (mutex_lock (snd (device_suspend (last (dpm_list s)) (mutex_unlock s))))
             \<lparr>dpm_list := butlast (dpm_list s)\<rparr>)"
    and step: "\<And>list s. I list s \<Longrightarrow> dpm_list s \<noteq> [] \<Longrightarrow>
        fst (device_suspend (last (dpm_list s)) (mutex_unlock s)) = Returns 0 \<Longrightarrow>
        async_error (snd (device_suspend (last (dpm_list s)) (mutex_unlock s))) = 0 \<Longrightarrow>
        I (last (dpm_list s) # list)
          ((mutex_lock (snd (device_suspend (last (dpm_list s)) (mutex_unlock s))))
             \<lparr>dpm_list := butlast (dpm_list s)\<rparr>)"
  shows "Q (dpm_suspend_loop st list s)"
  using init
proof (induction "length (dpm_list s)" arbitrary: s list rule: less_induct)
  case less
  show ?case
  proof (cases "dpm_list s = []")
    case True
    with empty [OF less.prems] show ?thesis
      by (subst dpm_suspend_loop.simps) simp
  next
    case False
    let ?dev = "last (dpm_list s)"
    let ?r = "device_suspend ?dev (mutex_unlock s)"
    let ?s4 = "(mutex_lock (snd ?r))\<lparr>dpm_list := butlast (dpm_list s)\<rparr>"
    have dl: "dpm_list (mutex_lock (snd ?r)) = dpm_list s" by simp
    have ae: "async_error ?s4 = async_error (snd ?r)" by (simp add: mutex_lock_def)
    show ?thesis
    proof (cases "fst ?r")
      case Blocked
      with blocked [OF less.prems False] False show ?thesis
        by (subst dpm_suspend_loop.simps) (simp add: Let_def split_def)
    next
      case (Returns e)
      show ?thesis
      proof (cases "e = 0")
        case e: False
        with failed [OF less.prems False Returns] Returns False show ?thesis
          by (subst dpm_suspend_loop.simps) (simp add: Let_def split_def)
      next
        case e: True
        show ?thesis
        proof (cases "async_error (snd ?r) = 0")
          case a: False
          with async [OF less.prems False] Returns e False dl ae show ?thesis
            by (subst dpm_suspend_loop.simps) (simp add: Let_def split_def)
        next
          case a: True
          have I: "I (?dev # list) ?s4"
            using step [OF less.prems False] Returns e a by simp
          have "length (dpm_list ?s4) < length (dpm_list s)"
            using False by simp
          from less.hyps [OF this I]
          show ?thesis
            using Returns e a False dl ae by (subst dpm_suspend_loop.simps) (simp add: Let_def split_def)
        qed
      qed
    qed
  qed
qed


lemma dpm_resume_loop_rule:
  assumes init: "I list s"
    and empty: "\<And>list s. I list s \<Longrightarrow> dpm_list s = [] \<Longrightarrow> Q (Returns (), list, s)"
    and blocked: "\<And>list s. I list s \<Longrightarrow> dpm_list s \<noteq> [] \<Longrightarrow>
        dpm_rank (status_of s (hd (dpm_list s))) \<ge> dpm_rank DPM_OFF \<Longrightarrow>
        \<not> is_async s (hd (dpm_list s)) \<Longrightarrow>
        fst (device_resume (hd (dpm_list s)) st False (mutex_unlock s)) = Blocked \<Longrightarrow>
        Q (Blocked, list, snd (device_resume (hd (dpm_list s)) st False (mutex_unlock s)))"
    and resumed: "\<And>list s e. I list s \<Longrightarrow> dpm_list s \<noteq> [] \<Longrightarrow>
        dpm_rank (status_of s (hd (dpm_list s))) \<ge> dpm_rank DPM_OFF \<Longrightarrow>
        \<not> is_async s (hd (dpm_list s)) \<Longrightarrow>
        fst (device_resume (hd (dpm_list s)) st False (mutex_unlock s)) = Returns e \<Longrightarrow>
        I (list @ [hd (dpm_list s)])
          ((if e \<noteq> 0
            then pm_dev_err (hd (dpm_list s)) e
                   (mutex_lock (snd (device_resume (hd (dpm_list s)) st False (mutex_unlock s))))
            else mutex_lock (snd (device_resume (hd (dpm_list s)) st False (mutex_unlock s))))
           \<lparr>dpm_list := tl (dpm_list s)\<rparr>)"
    and skipped: "\<And>list s. I list s \<Longrightarrow> dpm_list s \<noteq> [] \<Longrightarrow>
        \<not> (dpm_rank (status_of s (hd (dpm_list s))) \<ge> dpm_rank DPM_OFF \<and>
           \<not> is_async s (hd (dpm_list s))) \<Longrightarrow>
        I (list @ [hd (dpm_list s)])
          ((if status_of s (hd (dpm_list s)) = DPM_SUSPENDING
            then set_status (hd (dpm_list s)) DPM_RESUMING s else s)
           \<lparr>dpm_list := tl (dpm_list s)\<rparr>)"
  shows "Q (dpm_resume_loop st list s)"
  using init
proof (induction "length (dpm_list s)" arbitrary: s list rule: less_induct)
  case less
  show ?case
  proof (cases "dpm_list s = []")
    case True
    with empty [OF less.prems] show ?thesis
      by (subst dpm_resume_loop.simps) simp
  next
    case False
    let ?dev = "hd (dpm_list s)"
    show ?thesis
    proof (cases "dpm_rank (status_of s ?dev) \<ge> dpm_rank DPM_OFF \<and> \<not> is_async s ?dev")
      case c: True
      let ?r = "device_resume ?dev st False (mutex_unlock s)"
      let ?s4 = "(if fst ?r \<noteq> Returns 0 then pm_dev_err ?dev (case fst ?r of Returns e \<Rightarrow> e | Blocked \<Rightarrow> 0) (mutex_lock (snd ?r))
            else mutex_lock (snd ?r))\<lparr>dpm_list := tl (dpm_list s)\<rparr>"
      show ?thesis
      proof (cases "fst ?r")
        case Blocked
        with blocked [OF less.prems False] c False show ?thesis
          by (subst dpm_resume_loop.simps) (simp add: Let_def split_def)
      next
        case (Returns e)
        let ?s5 = "(if e \<noteq> 0 then pm_dev_err ?dev e (mutex_lock (snd ?r))
            else mutex_lock (snd ?r))\<lparr>dpm_list := tl (dpm_list s)\<rparr>"
        have I: "I (list @ [?dev]) ?s5"
          using resumed [OF less.prems False] c Returns by simp
        have "length (dpm_list ?s5) < length (dpm_list s)"
          using False by simp
        from less.hyps [OF this I]
        show ?thesis
          using Returns c False
          by (subst dpm_resume_loop.simps) (cases "e = 0"; simp add: Let_def split_def)
      qed
    next
      case c: False
      let ?s5 = "(if status_of s ?dev = DPM_SUSPENDING then set_status ?dev DPM_RESUMING s else s)
           \<lparr>dpm_list := tl (dpm_list s)\<rparr>"
      have I: "I (list @ [?dev]) ?s5"
        using skipped [OF less.prems False c] by simp
      have "length (dpm_list ?s5) < length (dpm_list s)"
        using False by simp
      from less.hyps [OF this I] have Q: "Q (dpm_resume_loop st (list @ [?dev]) ?s5)" .
      from c consider (a) "\<not> dpm_rank DPM_OFF \<le> dpm_rank (status_of s ?dev)" | (b) "is_async s ?dev"
        by blast
      then show ?thesis
      proof cases
        case a
        with Q False show ?thesis
          by (subst dpm_resume_loop.simps)
             (cases "status_of s (hd (dpm_list s)) = DPM_SUSPENDING"; simp add: Let_def split_def)
      next
        case b
        with Q False show ?thesis
          by (subst dpm_resume_loop.simps)
             (cases "status_of s (hd (dpm_list s)) = DPM_SUSPENDING"; simp add: Let_def split_def)
      qed
    qed
  qed
qed

lemma dpm_complete_loop_rule:
  assumes init: "I list s"
    and empty: "\<And>list s. I list s \<Longrightarrow> dpm_list s = [] \<Longrightarrow> Q (list, s)"
    and completed: "\<And>list s. I list s \<Longrightarrow> dpm_list s \<noteq> [] \<Longrightarrow>
        dpm_rank (status_of s (last (dpm_list s))) > dpm_rank DPM_ON \<Longrightarrow>
        I (last (dpm_list s) # list)
          ((mutex_lock (pm_runtime_put_sync (last (dpm_list s))
              (device_complete (last (dpm_list s)) st
                 (mutex_unlock (set_status (last (dpm_list s)) DPM_ON s)))))
           \<lparr>dpm_list := butlast (dpm_list s)\<rparr>)"
    and skipped: "\<And>list s. I list s \<Longrightarrow> dpm_list s \<noteq> [] \<Longrightarrow>
        \<not> dpm_rank (status_of s (last (dpm_list s))) > dpm_rank DPM_ON \<Longrightarrow>
        I (last (dpm_list s) # list) (s\<lparr>dpm_list := butlast (dpm_list s)\<rparr>)"
  shows "Q (dpm_complete_loop st list s)"
  using init
proof (induction "length (dpm_list s)" arbitrary: s list rule: less_induct)
  case less
  show ?case
  proof (cases "dpm_list s = []")
    case True
    with empty [OF less.prems] show ?thesis
      by (subst dpm_complete_loop.simps) simp
  next
    case False
    let ?dev = "last (dpm_list s)"
    show ?thesis
    proof (cases "dpm_rank (status_of s ?dev) > dpm_rank DPM_ON")
      case c: True
      let ?s5 = "(mutex_lock (pm_runtime_put_sync ?dev (device_complete ?dev st
                 (mutex_unlock (set_status ?dev DPM_ON s)))))\<lparr>dpm_list := butlast (dpm_list s)\<rparr>"
      have I: "I (?dev # list) ?s5"
        using completed [OF less.prems False c] by simp
      have "length (dpm_list ?s5) < length (dpm_list s)"
        using False by simp
      from less.hyps [OF this I]
      show ?thesis
        using c False by (subst dpm_complete_loop.simps) (simp add: Let_def split_def)
    next
      case c: False
      let ?s5 = "s\<lparr>dpm_list := butlast (dpm_list s)\<rparr>"
      have I: "I (?dev # list) ?s5"
        using skipped [OF less.prems False c] by simp
      have "length (dpm_list ?s5) < length (dpm_list s)"
        using False by simp
      from less.hyps [OF this I]
      show ?thesis
        using c False by (subst dpm_complete_loop.simps) (simp add: Let_def split_def)
    qed
  qed
qed


lemma lock_from_safe: "lock_safe (trace s) \<Longrightarrow> locked (mutex_lock s)"
  by (simp add: locked_def mutex_lock_def emit_def lock_safe_def)

lemma unlocked_sync [simp]: "unlocked (snd (async_synchronize_full s)) = unlocked s"
  by (simp add: async_synchronize_full_def)

lemma unlocked_list_update [simp]: "unlocked (s\<lparr>dpm_list := l\<rparr>) = unlocked s"
  by (simp add: unlocked_def)

definition loop_ends_safe :: "'a outcome \<times> nat list \<times> 'w pm_state \<Rightarrow> bool" where
  "loop_ends_safe x =
     (case x of (Blocked, l, s') \<Rightarrow> unlocked s' | (Returns e, l, s') \<Rightarrow> locked s')"

lemma suspend_loop_locked:
  "locked s \<Longrightarrow> loop_ends_safe (dpm_suspend_loop st list s)"
  by (rule dpm_suspend_loop_rule [where I = "\<lambda>l s. locked s"])
     (simp_all add: loop_ends_safe_def unlock_after_locked lock_after_unlocked)

lemma resume_loop_locked:
  "locked s \<Longrightarrow> loop_ends_safe (dpm_resume_loop st list s)"
  by (rule dpm_resume_loop_rule [where I = "\<lambda>l s. locked s"])
     (simp_all add: loop_ends_safe_def unlock_after_locked lock_after_unlocked)

lemma complete_loop_locked:
  "locked s \<Longrightarrow> locked (snd (dpm_complete_loop st list s))"
  by (rule dpm_complete_loop_rule [where I = "\<lambda>l s. locked s"])
     (simp_all add: unlock_after_locked lock_after_unlocked)

lemma prepare_loop_locked:
  assumes "dpm_prepare_loop st list s = Some y"
  shows "locked s \<longrightarrow> locked (snd (snd y))"
proof (rule dpm_prepare_loop.raw_induct
    [where P = "\<lambda>st list s y. locked s \<longrightarrow> locked (snd (snd y))", OF _ assms], goal_cases)
  case (1 loop state list s y)
  show ?case
  proof
    assume ls: "locked s"
    show "locked (snd (snd y))"
    proof (cases "dpm_list s = []")
      case True
      with 1(2) ls show ?thesis by auto
    next
      case False
      let ?dev = "hd (dpm_list s)"
      let ?r = "dpm_prepare_device ?dev state s"
      have l: "locked (snd ?r)" using ls by (rule locked_prepare_device)
      show ?thesis
      proof (cases "fst ?r = 0")
        case True
        with 1(2) False
        have "loop state (list @ [?dev])
            ((set_status ?dev DPM_SUSPENDING (snd ?r))\<lparr>dpm_list := tl (dpm_list (snd ?r))\<rparr>) = Some y"
          by (simp add: Let_def split_def set_status_def)
        from 1(1) [OF this]
        have "locked ((set_status ?dev DPM_SUSPENDING (snd ?r))\<lparr>dpm_list := tl (dpm_list (snd ?r))\<rparr>)
            \<longrightarrow> locked (snd (snd y))" .
        moreover have "locked ((set_status ?dev DPM_SUSPENDING (snd ?r))\<lparr>dpm_list := tl (dpm_list (snd ?r))\<rparr>)"
          using l by simp
        ultimately show ?thesis by blast
      next
        case nz: False
        show ?thesis
        proof (cases "fst ?r = - EAGAIN")
          case True
          with 1(2) False nz
          have "loop state list (set_status ?dev DPM_ON (snd ?r)) = Some y"
            by (simp add: Let_def split_def)
          from 1(1) [OF this]
          have "locked (set_status ?dev DPM_ON (snd ?r)) \<longrightarrow> locked (snd (snd y))" .
          moreover have "locked (set_status ?dev DPM_ON (snd ?r))" using l by simp
          ultimately show ?thesis by blast
        next
          case False
          with 1(2) \<open>dpm_list s \<noteq> []\<close> nz
          have "y = (fst ?r, list, set_status ?dev DPM_ON (snd ?r))"
            by (simp add: Let_def split_def)
          with l show ?thesis by simp
        qed
      qed
    qed
  qed
qed

lemma dpm_suspend_safe: "lock_safe (trace s) \<Longrightarrow> unlocked (snd (dpm_suspend st s))"
proof -
  assume "lock_safe (trace s)"
  then have l: "locked ((mutex_lock s)\<lparr>pm_transition := st, async_error := 0\<rparr>)"
    by (simp add: lock_from_safe)
  from suspend_loop_locked [OF l, of st "[]"] show ?thesis
    by (auto simp: dpm_suspend_def Let_def loop_ends_safe_def unlock_after_locked
          split: prod.splits outcome.splits
          dest: arg_cong [where f = "\<lambda>x. unlocked (snd x)"])
qed


lemma locked_resume_each [simp]: "locked (dpm_resume_each l s) = locked s"
  by (induction l arbitrary: s) (simp_all add: Let_def)

lemma dpm_resume_safe: "lock_safe (trace s) \<Longrightarrow> unlocked (snd (dpm_resume st s))"
proof -
  assume "lock_safe (trace s)"
  then have l: "locked (dpm_resume_each (dpm_list s) ((mutex_lock s)\<lparr>pm_transition := st\<rparr>))"
    by (simp add: lock_from_safe)
  from resume_loop_locked [OF l, of st "[]"] show ?thesis
    by (auto simp: dpm_resume_def Let_def loop_ends_safe_def unlock_after_locked
          split: prod.splits outcome.splits)
qed

lemma dpm_complete_safe: "lock_safe (trace s) \<Longrightarrow> unlocked (dpm_complete st s)"
proof -
  assume "lock_safe (trace s)"
  then have l: "locked ((mutex_lock s)\<lparr>transition_started := False\<rparr>)"
    by (simp add: lock_from_safe)
  from complete_loop_locked [OF l, of st "[]"] show ?thesis
    by (simp add: dpm_complete_def Let_def split_def unlock_after_locked)
qed

lemma dpm_prepare_safe:
  assumes "lock_safe (trace s)" and "dpm_prepare st s = Some (e, s')"
  shows "unlocked s'"
proof -
  from assms(1) have l: "locked ((mutex_lock s)\<lparr>transition_started := True\<rparr>)"
    by (simp add: lock_from_safe)
  from assms(2) obtain list s3
    where loop: "dpm_prepare_loop st [] ((mutex_lock s)\<lparr>transition_started := True\<rparr>)
        = Some (e, list, s3)"
      and s': "s' = mutex_unlock (s3\<lparr>dpm_list := list @ dpm_list s3\<rparr>)"
    by (auto simp: dpm_prepare_def Let_def split: option.splits)
  from prepare_loop_locked [OF loop] l have "locked s3" by simp
  then show ?thesis by (simp add: s' unlock_after_locked)
qed

lemma dpm_resume_end_safe: "lock_safe (trace s) \<Longrightarrow> unlocked (snd (dpm_resume_end st s))"
  using dpm_resume_safe [of s st]
  by (auto simp: dpm_resume_end_def split: prod.splits outcome.splits
        intro!: dpm_complete_safe unlocked_safe)

lemma dpm_suspend_start_safe:
  assumes "lock_safe (trace s)" and "dpm_suspend_start st s = Some (r, s')"
  shows "unlocked s'"
proof (cases "dpm_prepare st s")
  case None
  with assms(2) show ?thesis by (simp add: dpm_suspend_start_def)
next
  case (Some y)
  obtain e s1 where y: "y = (e, s1)" by (cases y)
  from dpm_prepare_safe [OF assms(1)] Some y have u: "unlocked s1" by simp
  show ?thesis
  proof (cases "e = 0")
    case True
    with assms(2) Some y have "(r, s') = dpm_suspend st s1"
      by (simp add: dpm_suspend_start_def)
    then have "s' = snd (dpm_suspend st s1)" by (metis snd_conv)
    with dpm_suspend_safe [OF unlocked_safe [OF u], of st] show ?thesis by simp
  next
    case False
    with assms(2) Some y u show ?thesis by (simp add: dpm_suspend_start_def)
  qed
qed

text \<open>In the no-interrupt phases every callback is entered with the lock held.\<close>

definition calls_held :: "(bool \<times> event) list \<Rightarrow> bool" where
  "calls_held tr = list_all (\<lambda>he. is_call (snd he) \<longrightarrow> fst he) tr"

definition holding :: "'w pm_state \<Rightarrow> bool" where
  "holding s \<longleftrightarrow> dpm_list_mtx s \<and> calls_held (trace s)"

lemma holding_emit [simp]: "holding (emit e s) = holding s"
  by (auto simp: holding_def calls_held_def)

lemma holding_prims [simp]:
  "holding (set_status d st s) = holding s"
  "holding (pm_dev_err d e s) = holding s"
  "holding (snd (invoke d t sl f s)) = holding s"
  "holding (s\<lparr>transition_started := b\<rparr>) = holding s"
  by (auto simp add: set_status_def pm_dev_err_def invoke_def Let_def split_def holding_def
        calls_held_def emit_def)

lemma holding_run_callback [simp]: "holding (snd (dpm_run_callback d t sl cb s)) = holding s"
  by (simp add: dpm_run_callback_def split: option.split)

lemma holding_noirq [simp]:
  "holding (snd (device_suspend_noirq d st s)) = holding s"
  "holding (snd (device_resume_noirq d st s)) = holding s"
  by (simp_all add: device_suspend_noirq_def device_resume_noirq_def Let_def split_def
        split: option.split)

lemma holding_resume_noirq_each [simp]: "holding (dpm_resume_noirq_each st l s) = holding s"
  by (induction l arbitrary: s) (simp_all add: Let_def split_def)

lemma holding_suspend_noirq_each [simp]:
  "holding (snd (dpm_suspend_noirq_each st l s)) = holding s"
  by (induction l arbitrary: s) (simp_all add: Let_def split_def)

lemma holding_lock: "calls_held (trace s) \<Longrightarrow> holding (mutex_lock s)"
  by (simp add: holding_def mutex_lock_def emit_def calls_held_def)

lemma holding_unlock: "holding s \<Longrightarrow> calls_held (trace (mutex_unlock s))"
  by (simp add: holding_def mutex_unlock_def emit_def calls_held_def)

lemma calls_held_snoc [simp]:
  "\<not> is_call e \<Longrightarrow> calls_held (tr @ [(m, e)]) = calls_held tr"
  by (simp add: calls_held_def)

lemma dpm_resume_noirq_held:
  assumes "calls_held (trace s)"
  shows "calls_held (trace (dpm_resume_noirq st s))"
proof -
  have "holding (dpm_resume_noirq_each st (dpm_list s) ((mutex_lock s)\<lparr>transition_started := False\<rparr>))"
    using assms by (simp add: holding_lock)
  then have "calls_held (trace (mutex_unlock
      (dpm_resume_noirq_each st (dpm_list s) ((mutex_lock s)\<lparr>transition_started := False\<rparr>))))"
    by (rule holding_unlock)
  then show ?thesis
    by (simp add: dpm_resume_noirq_def Let_def mutex_lock_def)
qed

lemma dpm_suspend_noirq_held:
  assumes "calls_held (trace s)"
  shows "calls_held (trace (snd (dpm_suspend_noirq st s)))"
proof -
  let ?r = "dpm_suspend_noirq_each st (rev (dpm_list s)) (mutex_lock (emit Suspend_device_irqs s))"
  have "calls_held (trace (emit Suspend_device_irqs s))"
    using assms by simp
  then have "holding (snd ?r)"
    by (simp add: holding_lock)
  then have u: "calls_held (trace (mutex_unlock (snd ?r)))"
    by (rule holding_unlock)
  show ?thesis
    using u dpm_resume_noirq_held [OF u, of "resume_event st"]
    by (simp add: dpm_suspend_noirq_def Let_def split_def mutex_lock_def)
qed


section \<open>The list lock and the callbacks\<close>

text \<open>
  Claim C3, as the code has it. Started from a trace in which \<^verbatim>\<open>dpm_list_mtx\<close> was
  never held across a callback or a wait, \<^verbatim>\<open>dpm_prepare\<close>, \<^verbatim>\<open>dpm_suspend\<close>,
  \<^verbatim>\<open>dpm_resume\<close> and \<^verbatim>\<open>dpm_complete\<close>, and so \<^verbatim>\<open>dpm_suspend_start\<close> and
  \<^verbatim>\<open>dpm_resume_end\<close>, leave such a trace, whether they return or block: the controlling
  thread enters every callback, every \<^verbatim>\<open>wait_for_completion\<close> and
  \<^verbatim>\<open>async_synchronize_full\<close> with the lock released. The no-interrupt phases are
  different: \<^verbatim>\<open>dpm_suspend_noirq\<close> and \<^verbatim>\<open>dpm_resume_noirq\<close> take the lock once and
  enter every callback with the lock held.
\<close>

theorem lock_dropped_around_callbacks:
  assumes "lock_safe (trace s)"
  shows "(\<forall>e s'. dpm_prepare st s = Some (e, s') \<longrightarrow> lock_safe (trace s'))
       \<and> lock_safe (trace (snd (dpm_suspend st s)))
       \<and> lock_safe (trace (snd (dpm_resume st s)))
       \<and> lock_safe (trace (dpm_complete st s))
       \<and> (\<forall>r s'. dpm_suspend_start st s = Some (r, s') \<longrightarrow> lock_safe (trace s'))
       \<and> lock_safe (trace (snd (dpm_resume_end st s)))
       \<and> (calls_held (trace s) \<longrightarrow>
            calls_held (trace (snd (dpm_suspend_noirq st s))) \<and>
            calls_held (trace (dpm_resume_noirq st s)))"
  using dpm_prepare_safe [OF assms] dpm_suspend_safe [OF assms] dpm_resume_safe [OF assms]
    dpm_complete_safe [OF assms] dpm_suspend_start_safe [OF assms]
    dpm_resume_end_safe [OF assms] dpm_suspend_noirq_held dpm_resume_noirq_held
  by (blast intro: unlocked_safe)

theorem lock_dropped_around_callbacks_witness:
  "lock_safe (trace (parent_child 0)) \<and> calls_held (trace (parent_child 0)) \<and>
   dpm_prepare PM_EVENT_SUSPEND (parent_child 0)
     = Some (0, snd (the (dpm_prepare PM_EVENT_SUSPEND (parent_child 0)))) \<and>
   lock_safe (trace (snd (the (dpm_prepare PM_EVENT_SUSPEND (parent_child 0))))) \<and>
   lock_safe (trace (snd (dpm_suspend PM_EVENT_SUSPEND (parent_child 0)))) \<and>
   lock_safe (trace (snd (dpm_resume_end PM_EVENT_RESUME (parent_child 0)))) \<and>
   calls_held (trace (snd (dpm_suspend_noirq PM_EVENT_SUSPEND (parent_child 0))))"
proof -
  have a: "lock_safe (trace (parent_child 0))" and b: "calls_held (trace (parent_child 0))"
    by (simp_all add: parent_child_def boot_def lock_safe_def calls_held_def)
  have "map_option fst (dpm_prepare PM_EVENT_SUSPEND (parent_child 0)) = Some 0"
    by code_simp
  then have p: "dpm_prepare PM_EVENT_SUSPEND (parent_child 0)
     = Some (0, snd (the (dpm_prepare PM_EVENT_SUSPEND (parent_child 0))))"
    by (cases "dpm_prepare PM_EVENT_SUSPEND (parent_child 0)") auto
  from lock_dropped_around_callbacks [OF a, of PM_EVENT_SUSPEND] p b
    lock_dropped_around_callbacks [OF a, of PM_EVENT_RESUME] a
  show ?thesis by blast
qed

text \<open>
  Claim C3 as stated fails for the no-interrupt phases: \<^verbatim>\<open>dpm_suspend_noirq\<close> enters
  the late suspend callbacks of both devices between \<^verbatim>\<open>mutex_lock\<close> and
  \<^verbatim>\<open>mutex_unlock\<close>.
\<close>

theorem noirq_callbacks_under_lock_counterexample:
  "lock_safe (trace (parent_child 0)) \<and>
   \<not> lock_safe (trace (snd (dpm_suspend_noirq PM_EVENT_SUSPEND (parent_child 0)))) \<and>
   trace (snd (dpm_suspend_noirq PM_EVENT_SUSPEND (parent_child 0))) =
     [(False, Suspend_device_irqs), (True, Mutex_lock),
      (True, Call 1 Bus_tier Suspend_noirq), (True, Status 1 DPM_OFF_IRQ),
      (True, Call 0 Bus_tier Suspend_noirq), (True, Status 0 DPM_OFF_IRQ),
      (False, Mutex_unlock)]"
  by code_simp

section \<open>Running the phases on concrete devices\<close>


lemma tiers_devs [simp]:
  "devs (snd (device_suspend_class d st s)) = devs s"
  "devs (snd (device_suspend_type d s)) = devs s"
  "devs (snd (device_suspend_bus d st s)) = devs s"
  "devs (snd (device_resume_bus d s)) = devs s"
  "devs (snd (device_resume_type d s)) = devs s"
  "devs (snd (device_resume_class d s)) = devs s"
  by (simp_all add: device_suspend_class_def device_suspend_type_def device_suspend_bus_def
        device_resume_bus_def device_resume_type_def device_resume_class_def
        dpm_run_callback_def legacy_suspend_def invoke_def Let_def split_def
        split: option.split)





section \<open>Dependency order\<close>





section \<open>What the phases do to the devices\<close>

fun call_dev :: "event \<Rightarrow> nat option" where
  "call_dev (Call d t sl) = Some d"
| "call_dev _ = None"

text \<open>The callbacks of device \<open>d\<close> entered so far.\<close>
definition dcalls :: "nat \<Rightarrow> 'w pm_state \<Rightarrow> event list" where
  "dcalls d s = filter (\<lambda>e. call_dev e = Some d) (map snd (trace s))"

lemma dcalls_emit [simp]:
  "dcalls d (emit e s) = dcalls d s @ (if call_dev e = Some d then [e] else [])"
  by (simp add: dcalls_def)

lemma dcalls_prims [simp]:
  "dcalls d (upd_dev x f s) = dcalls d s"
  "dcalls d (set_status x st s) = dcalls d s"
  "dcalls d (complete_all x s) = dcalls d s"
  "dcalls d (INIT_COMPLETION x s) = dcalls d s"
  "dcalls d (pm_runtime_get_noresume x s) = dcalls d s"
  "dcalls d (pm_runtime_put_sync x s) = dcalls d s"
  "dcalls d (pm_dev_err x e s) = dcalls d s"
  "dcalls d (mutex_lock s) = dcalls d s"
  "dcalls d (mutex_unlock s) = dcalls d s"
  "dcalls d (async_schedule fn x s) = dcalls d s"
  "dcalls d (snd (async_synchronize_full s)) = dcalls d s"
  "dcalls d (snd (wait_for_completion x s)) = dcalls d s"
  "dcalls d (s\<lparr>dpm_list := l\<rparr>) = dcalls d s"
  "dcalls d (s\<lparr>transition_started := b\<rparr>) = dcalls d s"
  "dcalls d (s\<lparr>pm_transition := m\<rparr>) = dcalls d s"
  "dcalls d (s\<lparr>async_error := i\<rparr>) = dcalls d s"
  by (simp_all add: dcalls_def set_status_def complete_all_def INIT_COMPLETION_def
        pm_runtime_get_noresume_def pm_runtime_put_sync_def pm_dev_err_def mutex_lock_def
        mutex_unlock_def async_schedule_def async_synchronize_full_def
        wait_for_completion_def)

lemma dcalls_invoke [simp]:
  "x \<noteq> d \<Longrightarrow> dcalls d (snd (invoke x t sl f s)) = dcalls d s"
  "x \<noteq> d \<Longrightarrow> dcalls d (invoke_void x t sl g s) = dcalls d s"
  by (simp_all add: invoke_def invoke_void_def Let_def split_def dcalls_def)

lemma dcalls_run_callback [simp]:
  "x \<noteq> d \<Longrightarrow> dcalls d (snd (dpm_run_callback x t sl cb s)) = dcalls d s"
  "x \<noteq> d \<Longrightarrow> dcalls d (snd (legacy_suspend x t st f s)) = dcalls d s"
  by (simp_all add: dpm_run_callback_def legacy_suspend_def split: option.split)

lemma dcalls_wait [simp]: "dcalls d (snd (dpm_wait c a s)) = dcalls d s"
  by (simp add: dpm_wait_def split: option.split)

lemma dcalls_wait_each [simp]: "dcalls d (snd (dpm_wait_fn_each cs a s)) = dcalls d s"
  by (induction cs arbitrary: s) (simp_all add: split_def split: outcome.split)

lemma dcalls_tiers [simp]:
  "x \<noteq> d \<Longrightarrow> dcalls d (snd (device_suspend_class x st s)) = dcalls d s"
  "x \<noteq> d \<Longrightarrow> dcalls d (snd (device_suspend_type x s)) = dcalls d s"
  "x \<noteq> d \<Longrightarrow> dcalls d (snd (device_suspend_bus x st s)) = dcalls d s"
  "x \<noteq> d \<Longrightarrow> dcalls d (snd (device_resume_bus x s)) = dcalls d s"
  "x \<noteq> d \<Longrightarrow> dcalls d (snd (device_resume_type x s)) = dcalls d s"
  "x \<noteq> d \<Longrightarrow> dcalls d (snd (device_resume_class x s)) = dcalls d s"
  by (simp_all add: device_suspend_class_def device_suspend_type_def device_suspend_bus_def
        device_resume_bus_def device_resume_type_def device_resume_class_def
        split: option.split)

lemma dcalls_others [simp]:
  "x \<noteq> d \<Longrightarrow> dcalls d (snd (device_suspend_callbacks x st s)) = dcalls d s"
  "x \<noteq> d \<Longrightarrow> dcalls d (snd (uu_device_suspend x st a s)) = dcalls d s"
  "x \<noteq> d \<Longrightarrow> dcalls d (snd (device_suspend x s)) = dcalls d s"
  "x \<noteq> d \<Longrightarrow> dcalls d (snd (device_resume x st a s)) = dcalls d s"
  "x \<noteq> d \<Longrightarrow> dcalls d (device_complete x st s) = dcalls d s"
  by (simp_all add: device_suspend_callbacks_def uu_device_suspend_def device_suspend_def
        device_resume_def device_resume_wait_def device_complete_def
        dpm_wait_for_children_def Let_def split_def
        split: option.split outcome.split)

text \<open>Sequential mode: asynchronous suspend is switched off and no work is queued.\<close>
definition sequential :: "'w pm_state \<Rightarrow> bool" where
  "sequential s \<longleftrightarrow> \<not> pm_async_enabled s \<and> async_pending s = []"

lemma dstep_sequential: "dstep d s s' \<Longrightarrow> sequential s' = sequential s"
  by (simp add: dstep_def frame_def sequential_def)

lemma dstep_async_error: "dstep d s s' \<Longrightarrow> async_error s' = async_error s"
  by (simp add: dstep_def frame_def)

lemma dstep_status: "dstep d s s' \<Longrightarrow> x \<noteq> d \<Longrightarrow> status_of s' x = status_of s x"
  by (simp add: dstep_def status_of_def)

lemma sequential_prims [simp]:
  "sequential (mutex_lock s) = sequential s"
  "sequential (mutex_unlock s) = sequential s"
  "sequential (set_status x st s) = sequential s"
  "sequential (pm_dev_err x e s) = sequential s"
  "sequential (INIT_COMPLETION x s) = sequential s"
  "sequential (pm_runtime_put_sync x s) = sequential s"
  "sequential (s\<lparr>dpm_list := l\<rparr>) = sequential s"
  "sequential (s\<lparr>transition_started := b\<rparr>) = sequential s"
  "sequential (s\<lparr>pm_transition := m\<rparr>) = sequential s"
  "sequential (s\<lparr>async_error := i\<rparr>) = sequential s"
  by (simp_all add: sequential_def mutex_lock_def mutex_unlock_def set_status_def
        pm_dev_err_def INIT_COMPLETION_def pm_runtime_put_sync_def)

lemma sequential_bodies [simp]:
  "sequential (snd (uu_device_suspend d st a s)) = sequential s"
  "sequential (snd (device_resume d st a s)) = sequential s"
  "sequential (device_complete d st s) = sequential s"
  by (rule dstep_sequential [of d], simp)+

lemma async_error_prims [simp]:
  "async_error (mutex_lock s) = async_error s"
  "async_error (mutex_unlock s) = async_error s"
  "async_error (set_status x st s) = async_error s"
  "async_error (pm_dev_err x e s) = async_error s"
  "async_error (INIT_COMPLETION x s) = async_error s"
  "async_error (snd (uu_device_suspend d m a s)) = async_error s"
  by (simp_all add: mutex_lock_def mutex_unlock_def set_status_def
        pm_dev_err_def INIT_COMPLETION_def dstep_async_error [of d])

lemma status_prims [simp]:
  "status_of (mutex_lock s) = status_of s"
  "status_of (mutex_unlock s) = status_of s"
  "status_of (pm_dev_err x e s) = status_of s"
  "status_of (INIT_COMPLETION x s) = status_of s"
  "status_of (complete_all x s) = status_of s"
  "status_of (pm_runtime_put_sync x s) = status_of s"
  "status_of (emit ev s) = status_of s"
  "status_of (s\<lparr>dpm_list := l\<rparr>) = status_of s"
  "status_of (s\<lparr>transition_started := b\<rparr>) = status_of s"
  "status_of (s\<lparr>pm_transition := m\<rparr>) = status_of s"
  "status_of (s\<lparr>async_error := i\<rparr>) = status_of s"
  "status_of (set_status x st s) = (status_of s)(x := st)"
  by (auto simp add: status_of_def mutex_lock_def mutex_unlock_def set_status_def
        pm_dev_err_def INIT_COMPLETION_def complete_all_def pm_runtime_put_sync_def
        fun_eq_iff)




lemma pending_prims [simp]:
  "async_pending (mutex_lock s) = async_pending s"
  "async_pending (mutex_unlock s) = async_pending s"
  "async_pending (set_status x st s) = async_pending s"
  "async_pending (pm_dev_err x e s) = async_pending s"
  "async_pending (INIT_COMPLETION x s) = async_pending s"
  "async_pending (snd (uu_device_suspend d m a s)) = async_pending s"
  "async_pending (snd (device_resume d m a s)) = async_pending s"
  by (simp_all add: mutex_lock_def mutex_unlock_def set_status_def pm_dev_err_def
        INIT_COMPLETION_def)
     (simp_all add: dstep_def [of d, THEN iffD1, THEN conjunct1, unfolded frame_def])


lemma async_schedule_prims [simp]:
  "status_of (async_schedule fn x s) = status_of s"
  "async_error (async_schedule fn x s) = async_error s"
  "async_pending (async_schedule fn x s) \<noteq> []"
  by (simp_all add: async_schedule_def status_of_def fun_eq_iff)








lemma invoke_void_devs [simp]: "devs (invoke_void d t sl g s) = devs s"
  by (simp add: invoke_void_def Let_def)

lemma dcalls_invoke_void_self [simp]:
  "dcalls d (invoke_void d t sl g s) = dcalls d s @ [Call d t sl]"
  by (simp add: invoke_void_def Let_def dcalls_def)


lemma device_complete_devs [simp]: "devs (device_complete d st s) = devs s"
  by (simp add: device_complete_def Let_def split: option.split)

definition statics_kept :: "'w pm_state \<Rightarrow> 'w pm_state \<Rightarrow> bool" where
  "statics_kept s0 s \<longleftrightarrow> (\<forall>d. same_static (devs s0 d) (devs s d))"

lemma statics_kept_refl [simp]: "statics_kept s s"
  by (simp add: statics_kept_def same_static_def)

lemma statics_kept_dstep: "dstep x s s' \<Longrightarrow> statics_kept s0 s' = statics_kept s0 s"
  unfolding statics_kept_def dstep_def same_static_def
  by (intro iff_allI) (metis (no_types))





lemma dstep_put_sync [simp]: "dstep d s (pm_runtime_put_sync d s') = dstep d s s'"
  by (simp add: dstep_def frame_def same_static_def pm_runtime_put_sync_def)

lemma statics_kept_globals [simp]:
  "statics_kept s0 (mutex_lock s) = statics_kept s0 s"
  "statics_kept s0 (mutex_unlock s) = statics_kept s0 s"
  "statics_kept s0 (pm_dev_err x e s) = statics_kept s0 s"
  "statics_kept s0 (emit ev s) = statics_kept s0 s"
  "statics_kept s0 (s\<lparr>dpm_list := l\<rparr>) = statics_kept s0 s"
  "statics_kept s0 (s\<lparr>transition_started := b\<rparr>) = statics_kept s0 s"
  "statics_kept s0 (s\<lparr>pm_transition := m\<rparr>) = statics_kept s0 s"
  by (simp_all add: statics_kept_def mutex_lock_def mutex_unlock_def pm_dev_err_def)

lemma statics_kept_steps [simp]:
  "statics_kept s0 (set_status x st s) = statics_kept s0 s"
  "statics_kept s0 (INIT_COMPLETION x s) = statics_kept s0 s"
  "statics_kept s0 (pm_runtime_put_sync x s) = statics_kept s0 s"
  "statics_kept s0 (snd (device_resume x m a s)) = statics_kept s0 s"
  "statics_kept s0 (device_complete x m s) = statics_kept s0 s"
  by (rule statics_kept_dstep [of x], simp)+


lemma statics_kept_async_schedule [simp]:
  "statics_kept s0 (async_schedule fn x s) = statics_kept s0 s"
  by (simp add: async_schedule_def statics_kept_def)









lemma device_complete_status [simp]: "status_of (device_complete d st s) = status_of s"
  by (simp add: status_of_def fun_eq_iff)







section \<open>A device that was prepared but never suspended\<close>


section \<open>A failed suspend\<close>










end
